theory Spec2Isabelle
  imports Main
begin

section \<open>The graph collaborator\<close>

text \<open>
  Both passes work on an in-memory dataflow graph. A node carries an operator type tag,
  a stable name, an ordered list of input tensor ids, an ordered list of output tensor
  ids and an attribute map. An input position holds a tensor id or Python's \<open>None\<close>
  (the loop rewriter can write \<open>None\<close> there), hence \<open>string option\<close>.
  The attribute map is only ever compared with \<open>==\<close>; it is the type parameter.
\<close>

record 'a node =
  node_name :: string
  node_type :: string
  node_input :: "string option list"
  node_output :: "string list"
  node_attr :: 'a

record 'a graph =
  graph_nodes :: "'a node list"
  graph_outputs :: "string list"

text \<open>The exceptions of the Python code, as values.\<close>

datatype error =
    ValueError string
  | IndexError
  | KeyError string
  | AttributeError

text \<open>
  Modelled from the spec: the Graph class (tf2onnx/graph.py) is not among the sources.
  Its primitives follow the spec's list of consumed operations: enumerate all nodes;
  find all consumer nodes of a given output tensor; resolve the node producing a given
  output tensor; rewire all occurrences of a tensor id to a different tensor id across a
  given node set; delete a node by identity. A node's identity is its stable name, so a
  node set is given by the names of its members.
\<close>

definition get_nodes :: "'a graph \<Rightarrow> 'a node list" where
  "get_nodes g = graph_nodes g"

definition find_output_consumers :: "'a graph \<Rightarrow> string option \<Rightarrow> 'a node list" where
  "find_output_consumers g output_name =
     filter (\<lambda>n. output_name \<in> set (node_input n)) (get_nodes g)"

definition get_node_by_output :: "'a graph \<Rightarrow> string option \<Rightarrow> 'a node option" where
  "get_node_by_output g output_name =
     (case output_name of
        None \<Rightarrow> None
      | Some s \<Rightarrow> find (\<lambda>n. s \<in> set (node_output n)) (get_nodes g))"

definition replace_input :: "string option \<Rightarrow> string option \<Rightarrow> 'a node \<Rightarrow> 'a node" where
  "replace_input old_input new_input n =
     n\<lparr>node_input := map (\<lambda>i. if i = old_input then new_input else i) (node_input n)\<rparr>"

definition replace_all_inputs ::
  "'a graph \<Rightarrow> string list \<Rightarrow> string option \<Rightarrow> string option \<Rightarrow> 'a graph" where
  "replace_all_inputs g ops old_input new_input =
     g\<lparr>graph_nodes :=
         map (\<lambda>n. if node_name n \<in> set ops then replace_input old_input new_input n else n)
           (graph_nodes g)\<rparr>"

definition remove_node :: "'a graph \<Rightarrow> string \<Rightarrow> 'a graph" where
  "remove_node g nm = g\<lparr>graph_nodes := filter (\<lambda>n. node_name n \<noteq> nm) (graph_nodes g)\<rparr>"

text \<open>
  Modelled from the spec: \<open>Node.is_graph_input\<close> is not among the sources; the spec
  exempts ``nodes that are themselves graph inputs'', which the graph holds as
  placeholder nodes.
\<close>

definition is_graph_input :: "'a node \<Rightarrow> bool" where
  "is_graph_input n =
     (node_type n \<in> set [''Placeholder'', ''PlaceholderWithDefault'', ''PlaceholderV2''])"


section \<open>The duplicate-node merge optimizer\<close>

text \<open>
  \<open>MergeDuplicatedNodesOptimizer\<close>. The instance has one field of its own, the rerun
  flag \<open>_graph_can_be_optimized\<close>, which \<open>__init__\<close> sets to \<open>True\<close>. Every method
  takes the instance and the graph and returns both.
\<close>

record optimizer =
  graph_can_be_optimized :: bool

definition init_optimizer :: optimizer where
  "init_optimizer = \<lparr>graph_can_be_optimized = True\<rparr>"

definition len_of_node_output :: "'a node \<Rightarrow> nat" where
  "len_of_node_output n = length (node_output n)"

definition skip_node_type :: "'a node \<Rightarrow> bool" where
  "skip_node_type n =
     (if node_type n \<in> set [''Identity''] then True
      else if is_graph_input n then True
      else False)"

text \<open>
  \<open>_group_nodes_by_type_inputs\<close>: a \<open>defaultdict(list)\<close> keyed by
  \<open>(node.type, tuple(node.input))\<close>, as an association list in insertion order.
\<close>

type_synonym 'a node_groups = "((string \<times> string option list) \<times> 'a node list) list"

fun group_append ::
  "(string \<times> string option list) \<Rightarrow> 'a node \<Rightarrow> 'a node_groups \<Rightarrow> 'a node_groups" where
  "group_append k n [] = [(k, [n])]"
| "group_append k n ((k', ns) # res) =
     (if k' = k then (k', ns @ [n]) # res else (k', ns) # group_append k n res)"

definition group_nodes_by_type_inputs :: "'a graph \<Rightarrow> 'a node_groups" where
  "group_nodes_by_type_inputs g =
     foldl (\<lambda>res n. group_append (node_type n, node_input n) n res) [] (get_nodes g)"

text \<open>
  \<open>_merge_nodes_that_are_duplicated\<close>. \<open>list.sort(key=..., reverse=True)\<close> is a stable
  descending sort: \<open>sort_key\<close> on the negated key. The group holds the node objects
  taken at the start of the round; of these the merge reads the name, the outputs and the
  attributes, none of which \<open>replace_all_inputs\<close> writes.
\<close>

definition rewire_to_retained :: "'a node \<Rightarrow> 'a node \<Rightarrow> 'a graph \<Rightarrow> 'a graph" where
  "rewire_to_retained node_to_delete node_to_retain g =
     fold (\<lambda>(old_input, new_input) g'.
             replace_all_inputs g' (map node_name (get_nodes g')) (Some old_input) (Some new_input))
       (zip (node_output node_to_delete) (node_output node_to_retain)) g"

definition delete_or_keep ::
  "'a node \<Rightarrow> 'a node \<Rightarrow> optimizer \<times> 'a graph \<Rightarrow> optimizer \<times> 'a graph" where
  "delete_or_keep node_to_retain node_to_delete sg =
     (case sg of (self, g) \<Rightarrow>
        if set (node_output node_to_delete) \<inter> set (graph_outputs g) \<noteq> {} then (self, g)
        else (self\<lparr>graph_can_be_optimized := True\<rparr>,
              remove_node (rewire_to_retained node_to_delete node_to_retain g)
                (node_name node_to_delete)))"

definition sort_by_len_of_node_output :: "'a node list \<Rightarrow> 'a node list" where
  "sort_by_len_of_node_output ns = sort_key (\<lambda>n. - int (len_of_node_output n)) ns"

definition merge_nodes_that_are_duplicated ::
  "'a node list \<Rightarrow> optimizer \<times> 'a graph \<Rightarrow> error + optimizer \<times> 'a graph" where
  "merge_nodes_that_are_duplicated nodes_to_process sg =
     (case sort_by_len_of_node_output nodes_to_process of
        [] \<Rightarrow> Inl IndexError
      | node_to_retain # rest \<Rightarrow> Inr (fold (delete_or_keep node_to_retain) rest sg))"

function del_nodes_if_duplicated ::
  "'a node list \<Rightarrow> optimizer \<times> 'a graph \<Rightarrow> error + optimizer \<times> 'a graph" where
  "del_nodes_if_duplicated [] sg = Inr sg"
| "del_nodes_if_duplicated [n] sg = Inr sg"
| "del_nodes_if_duplicated (first # n # ns) sg =
     (let nodes_to_process = first # filter (\<lambda>m. node_attr m = node_attr first) (n # ns);
          unprocessed_node = filter (\<lambda>m. node_attr m \<noteq> node_attr first) (n # ns)
      in case merge_nodes_that_are_duplicated nodes_to_process sg of
           Inl e \<Rightarrow> Inl e
         | Inr sg' \<Rightarrow> del_nodes_if_duplicated unprocessed_node sg')"
  by pat_completeness auto
termination
  by (relation "measure (\<lambda>(ns, sg). length ns)") (auto simp: less_Suc_eq_le intro: le_SucI)

fun for_each_group ::
  "'a node_groups \<Rightarrow> optimizer \<times> 'a graph \<Rightarrow> error + optimizer \<times> 'a graph" where
  "for_each_group [] sg = Inr sg"
| "for_each_group ((k, nodes_group) # rest) sg =
     (case nodes_group of
        [] \<Rightarrow> Inl IndexError
      | n0 # _ \<Rightarrow>
          if skip_node_type n0 then for_each_group rest sg
          else (case del_nodes_if_duplicated nodes_group sg of
                  Inl e \<Rightarrow> Inl e
                | Inr sg' \<Rightarrow> for_each_group rest sg'))"

definition merge_duplicated_nodes ::
  "optimizer \<times> 'a graph \<Rightarrow> error + optimizer \<times> 'a graph" where
  "merge_duplicated_nodes sg = for_each_group (group_nodes_by_type_inputs (snd sg)) sg"

subsection \<open>What the graph primitives leave alone\<close>

definition node_frame :: "'a node \<Rightarrow> string \<times> string \<times> string list \<times> 'a" where
  "node_frame n = (node_name n, node_type n, node_output n, node_attr n)"

lemma node_frame_replace_input [simp]: "node_frame (replace_input a b n) = node_frame n"
  by (simp add: node_frame_def replace_input_def)

lemma node_name_replace_input [simp]: "node_name (replace_input a b n) = node_name n"
  by (simp add: replace_input_def)

lemma replace_all_inputs_outputs [simp]:
  "graph_outputs (replace_all_inputs g ops a b) = graph_outputs g"
  by (simp add: replace_all_inputs_def)

lemma replace_all_inputs_frames [simp]:
  "map node_frame (graph_nodes (replace_all_inputs g ops a b)) = map node_frame (graph_nodes g)"
  by (simp add: replace_all_inputs_def)

lemma replace_all_inputs_names [simp]:
  "map node_name (graph_nodes (replace_all_inputs g ops a b)) = map node_name (graph_nodes g)"
  by (simp add: replace_all_inputs_def)

lemma rewire_fold_frames:
  "map node_frame (graph_nodes (fold (\<lambda>(old_input, new_input) g'.
       replace_all_inputs g' (map node_name (get_nodes g')) (Some old_input) (Some new_input)) ps g))
   = map node_frame (graph_nodes g)"
  by (induction ps arbitrary: g) (auto)

lemma rewire_fold_names:
  "map node_name (graph_nodes (fold (\<lambda>(old_input, new_input) g'.
       replace_all_inputs g' (map node_name (get_nodes g')) (Some old_input) (Some new_input)) ps g))
   = map node_name (graph_nodes g)"
  by (induction ps arbitrary: g) (auto)

lemma rewire_fold_outputs:
  "graph_outputs (fold (\<lambda>(old_input, new_input) g'.
       replace_all_inputs g' (map node_name (get_nodes g')) (Some old_input) (Some new_input)) ps g)
   = graph_outputs g"
  by (induction ps arbitrary: g) (auto)

lemma rewire_to_retained_frames [simp]:
  "map node_frame (graph_nodes (rewire_to_retained d r g)) = map node_frame (graph_nodes g)"
  by (simp add: rewire_to_retained_def rewire_fold_frames)

lemma rewire_to_retained_names [simp]:
  "map node_name (graph_nodes (rewire_to_retained d r g)) = map node_name (graph_nodes g)"
  by (simp add: rewire_to_retained_def rewire_fold_names)

lemma rewire_to_retained_outputs [simp]:
  "graph_outputs (rewire_to_retained d r g) = graph_outputs g"
  by (simp add: rewire_to_retained_def rewire_fold_outputs)

lemma rewire_to_retained_length [simp]:
  "length (graph_nodes (rewire_to_retained d r g)) = length (graph_nodes g)"
  using rewire_to_retained_names [of d r g] by (metis length_map)

lemma remove_node_outputs [simp]: "graph_outputs (remove_node g nm) = graph_outputs g"
  by (simp add: remove_node_def)

lemma remove_node_length_le: "length (graph_nodes (remove_node g nm)) \<le> length (graph_nodes g)"
  by (simp add: remove_node_def)

lemma remove_node_length_less:
  assumes "nm \<in> set (map node_name (graph_nodes g))"
  shows "length (graph_nodes (remove_node g nm)) < length (graph_nodes g)"
proof -
  from assms obtain n where "n \<in> set (graph_nodes g)" "node_name n = nm" by auto
  then show ?thesis
    unfolding remove_node_def by (auto intro: length_filter_less)
qed

subsection \<open>Grouping\<close>

lemma group_append_nodes:
  "(\<Union>kn\<in>set (group_append k n res). set (snd kn)) = insert n (\<Union>kn\<in>set res. set (snd kn))"
  by (induction k n res rule: group_append.induct) auto

lemma group_append_nonempty:
  "\<forall>kn\<in>set res. snd kn \<noteq> [] \<Longrightarrow> \<forall>kn\<in>set (group_append k n res). snd kn \<noteq> []"
  by (induction k n res rule: group_append.induct) auto

lemma foldl_group_append_nodes:
  "(\<Union>kn\<in>set (foldl (\<lambda>res n. group_append (node_type n, node_input n) n res) res ns). set (snd kn))
     = (\<Union>kn\<in>set res. set (snd kn)) \<union> set ns"
  by (induction ns arbitrary: res) (simp_all add: group_append_nodes)

lemma foldl_group_append_nonempty:
  "\<forall>kn\<in>set res. snd kn \<noteq> [] \<Longrightarrow>
   \<forall>kn\<in>set (foldl (\<lambda>res n. group_append (node_type n, node_input n) n res) res ns). snd kn \<noteq> []"
proof (induction ns arbitrary: res)
  case Nil
  then show ?case by simp
next
  case (Cons a ns)
  have "\<forall>kn\<in>set (group_append (node_type a, node_input a) a res). snd kn \<noteq> []"
    using Cons.prems by (rule group_append_nonempty)
  from Cons.IH [OF this] show ?case by simp
qed

lemma group_nodes_by_type_inputs_nodes:
  "(\<Union>kn\<in>set (group_nodes_by_type_inputs g). set (snd kn)) = set (graph_nodes g)"
  by (simp add: group_nodes_by_type_inputs_def get_nodes_def foldl_group_append_nodes)

lemma group_nodes_by_type_inputs_nonempty:
  "\<forall>kn\<in>set (group_nodes_by_type_inputs g). snd kn \<noteq> []"
  unfolding group_nodes_by_type_inputs_def by (rule foldl_group_append_nonempty) simp

subsection \<open>Invariants of a round\<close>

text \<open>
  One round visits only nodes of the graph it started from. An invariant of the single
  deletion step is therefore an invariant of the whole round.
\<close>

lemma fold_delete_or_keep_inv:
  assumes step: "\<And>d sg. d \<in> D \<Longrightarrow> Inv sg \<Longrightarrow> Inv (delete_or_keep r d sg)"
  shows "set ds \<subseteq> D \<Longrightarrow> Inv sg \<Longrightarrow> Inv (fold (delete_or_keep r) ds sg)"
proof (induction ds arbitrary: sg)
  case Nil
  then show ?case by simp
next
  case (Cons d ds)
  have "Inv (delete_or_keep r d sg)" using Cons.prems by (intro step) simp_all
  moreover have "set ds \<subseteq> D" using Cons.prems(1) by simp
  ultimately show ?case using Cons.IH by simp
qed

lemma set_sort_by_len [simp]: "set (sort_by_len_of_node_output ns) = set ns"
  by (simp add: sort_by_len_of_node_output_def)

lemma merge_nodes_inv:
  assumes step: "\<And>r d sg. d \<in> D \<Longrightarrow> Inv sg \<Longrightarrow> Inv (delete_or_keep r d sg)"
    and "set ns \<subseteq> D" and "Inv sg" and "merge_nodes_that_are_duplicated ns sg = Inr sg'"
  shows "Inv sg'"
proof -
  from assms(4) obtain r rest where s: "sort_by_len_of_node_output ns = r # rest"
    and sg': "sg' = fold (delete_or_keep r) rest sg"
    by (auto simp: merge_nodes_that_are_duplicated_def split: list.splits)
  have "set rest \<subseteq> set ns" using set_sort_by_len [of ns] s by auto
  with assms(2) have rest: "set rest \<subseteq> D" by blast
  show ?thesis unfolding sg'
  proof (rule fold_delete_or_keep_inv [where Inv = Inv and D = D])
    show "\<And>d sg. d \<in> D \<Longrightarrow> Inv sg \<Longrightarrow> Inv (delete_or_keep r d sg)" by (rule step)
    show "set rest \<subseteq> D" by fact
    show "Inv sg" by fact
  qed
qed

lemma del_nodes_inv:
  assumes step: "\<And>r d sg. d \<in> D \<Longrightarrow> Inv sg \<Longrightarrow> Inv (delete_or_keep r d sg)"
  shows "set ns \<subseteq> D \<Longrightarrow> Inv sg \<Longrightarrow> del_nodes_if_duplicated ns sg = Inr sg' \<Longrightarrow> Inv sg'"
proof (induction ns sg arbitrary: sg' rule: del_nodes_if_duplicated.induct)
  case (3 first n ns sg)
  let ?proc = "first # filter (\<lambda>m. node_attr m = node_attr first) (n # ns)"
  let ?unp = "filter (\<lambda>m. node_attr m \<noteq> node_attr first) (n # ns)"
  from "3.prems"(3) obtain sg1 where m: "merge_nodes_that_are_duplicated ?proc sg = Inr sg1"
    and d: "del_nodes_if_duplicated ?unp sg1 = Inr sg'"
    by (auto simp: Let_def split: sum.splits)
  have "set ?proc \<subseteq> D" using "3.prems"(1) by auto
  with step have p1: "Inv sg1" using "3.prems"(2) m
    by (rule merge_nodes_inv [where Inv = Inv and D = D])
  have u: "set ?unp \<subseteq> D" using "3.prems"(1) by auto
  show ?case by (rule "3.IH" [OF refl refl m u p1 d])
qed simp_all

lemma for_each_group_inv:
  assumes step: "\<And>r d sg. d \<in> D \<Longrightarrow> Inv sg \<Longrightarrow> Inv (delete_or_keep r d sg)"
  shows "\<forall>kn\<in>set gs. set (snd kn) \<subseteq> D \<Longrightarrow> Inv sg \<Longrightarrow> for_each_group gs sg = Inr sg' \<Longrightarrow> Inv sg'"
proof (induction gs sg arbitrary: sg' rule: for_each_group.induct)
  case (1 sg)
  then show ?case by simp
next
  case (2 k nodes_group rest sg)
  from "2.prems"(3) obtain n0 ns where ng: "nodes_group = n0 # ns"
    by (cases nodes_group) auto
  have rest: "\<forall>kn\<in>set rest. set (snd kn) \<subseteq> D"
    using "2.prems"(1) by simp
  show ?case
  proof (cases "skip_node_type n0")
    case True
    with "2.prems"(3) ng have "for_each_group rest sg = Inr sg'" by simp
    with "2.IH"(1) [OF ng True rest "2.prems"(2)] show ?thesis .
  next
    case False
    with "2.prems"(3) ng obtain sg1 where d: "del_nodes_if_duplicated nodes_group sg = Inr sg1"
      and r: "for_each_group rest sg1 = Inr sg'"
      by (auto split: sum.splits)
    have "set nodes_group \<subseteq> D" using "2.prems"(1) by simp
    with step have "Inv sg1" using "2.prems"(2) d
      by (rule del_nodes_inv [where Inv = Inv and D = D])
    with "2.IH"(2) [OF ng False d rest _ r] show ?thesis .
  qed
qed

lemma merge_duplicated_nodes_inv:
  assumes step: "\<And>r d sg'. d \<in> set (graph_nodes (snd sg)) \<Longrightarrow> Inv sg' \<Longrightarrow>
                   Inv (delete_or_keep r d sg')"
    and "Inv sg" and "merge_duplicated_nodes sg = Inr sg'"
  shows "Inv sg'"
proof -
  have "\<forall>kn\<in>set (group_nodes_by_type_inputs (snd sg)). set (snd kn) \<subseteq> set (graph_nodes (snd sg))"
    using group_nodes_by_type_inputs_nodes [of "snd sg"] by auto
  with step show ?thesis
    using assms(2) assms(3) unfolding merge_duplicated_nodes_def
    by (rule for_each_group_inv [where Inv = Inv and D = "set (graph_nodes (snd sg))"])
qed

text \<open>
  Progress of a round that starts with the flag cleared: the flag is set only after a
  node has gone, and while it is clear the graph is the one the round started from.
\<close>

definition round_progress :: "'a graph \<Rightarrow> optimizer \<times> 'a graph \<Rightarrow> bool" where
  "round_progress g0 sg =
     (if graph_can_be_optimized (fst sg) then length (graph_nodes (snd sg)) < length (graph_nodes g0)
      else snd sg = g0)"

lemma delete_or_keep_progress:
  assumes "d \<in> set (graph_nodes g0)" "round_progress g0 sg"
  shows "round_progress g0 (delete_or_keep r d sg)"
proof (cases sg)
  case (Pair self g)
  show ?thesis
  proof (cases "graph_can_be_optimized self")
    case True
    with assms(2) Pair have "length (graph_nodes g) < length (graph_nodes g0)"
      by (simp add: round_progress_def)
    moreover have "length (graph_nodes (remove_node (rewire_to_retained d r g) (node_name d)))
        \<le> length (graph_nodes g)"
      using remove_node_length_le [of "rewire_to_retained d r g"] by simp
    ultimately show ?thesis using Pair True
      by (auto simp: round_progress_def delete_or_keep_def)
  next
    case False
    with assms(2) Pair have g: "g = g0" by (simp add: round_progress_def)
    have "length (graph_nodes (remove_node (rewire_to_retained d r g0) (node_name d)))
        < length (graph_nodes g0)"
      using remove_node_length_less [of "node_name d" "rewire_to_retained d r g0"] assms(1)
      by simp
    then show ?thesis using Pair False g
      by (auto simp: round_progress_def delete_or_keep_def)
  qed
qed

lemma merge_duplicated_nodes_progress:
  assumes "merge_duplicated_nodes (self, g) = Inr sg'" "\<not> graph_can_be_optimized self"
  shows "round_progress g sg'"
proof (rule merge_duplicated_nodes_inv [where Inv = "round_progress g" and sg = "(self, g)"])
  show "round_progress g (self, g)" using assms(2) by (simp add: round_progress_def)
  show "merge_duplicated_nodes (self, g) = Inr sg'" by fact
  show "\<And>r d sg'. d \<in> set (graph_nodes (snd (self, g))) \<Longrightarrow> round_progress g sg' \<Longrightarrow>
          round_progress g (delete_or_keep r d sg')"
    by (simp add: delete_or_keep_progress)
qed

text \<open>The round never raises: every group and every equality class has a first element.\<close>

lemma merge_nodes_total:
  "ns \<noteq> [] \<Longrightarrow> \<exists>sg'. merge_nodes_that_are_duplicated ns sg = Inr sg'"
proof -
  assume "ns \<noteq> []"
  then have "length (sort_by_len_of_node_output ns) \<noteq> 0"
    by (simp add: sort_by_len_of_node_output_def)
  then obtain r rest where "sort_by_len_of_node_output ns = r # rest"
    by (cases "sort_by_len_of_node_output ns") auto
  then show ?thesis by (simp add: merge_nodes_that_are_duplicated_def)
qed

lemma del_nodes_total: "\<exists>sg'. del_nodes_if_duplicated ns sg = Inr sg'"
proof (induction ns sg rule: del_nodes_if_duplicated.induct)
  case (3 first n ns sg)
  let ?proc = "first # filter (\<lambda>m. node_attr m = node_attr first) (n # ns)"
  obtain sg1 where m: "merge_nodes_that_are_duplicated ?proc sg = Inr sg1"
    using merge_nodes_total [of ?proc sg] by blast
  from "3.IH" [OF refl refl m] m show ?case by (simp add: Let_def)
qed simp_all

lemma for_each_group_total:
  "\<forall>kn\<in>set gs. snd kn \<noteq> [] \<Longrightarrow> \<exists>sg'. for_each_group gs sg = Inr sg'"
proof (induction gs sg rule: for_each_group.induct)
  case (1 sg)
  then show ?case by simp
next
  case (2 k nodes_group rest sg)
  from "2.prems" obtain n0 ns where ng: "nodes_group = n0 # ns"
    by (cases nodes_group) auto
  have rest: "\<forall>kn\<in>set rest. snd kn \<noteq> []" using "2.prems" by simp
  show ?case
  proof (cases "skip_node_type n0")
    case True
    with "2.IH"(1) [OF ng True rest] ng show ?thesis by simp
  next
    case False
    obtain sg1 where d: "del_nodes_if_duplicated nodes_group sg = Inr sg1"
      using del_nodes_total by blast
    with "2.IH"(2) [OF ng False d rest] ng False show ?thesis by simp
  qed
qed

lemma merge_duplicated_nodes_total: "\<exists>sg'. merge_duplicated_nodes sg = Inr sg'"
  unfolding merge_duplicated_nodes_def
  by (rule for_each_group_total) (rule group_nodes_by_type_inputs_nonempty)

text \<open>
  \<open>_optimize_at_current_graph_level\<close>: the \<open>while\<close> loop on the instance's flag. It
  terminates because a round that sets the flag has removed a node.
\<close>

function optimize_at_current_graph_level ::
  "optimizer \<times> 'a graph \<Rightarrow> error + optimizer \<times> 'a graph" where
  "optimize_at_current_graph_level (self, graph) =
     (if graph_can_be_optimized self then
        (case merge_duplicated_nodes (self\<lparr>graph_can_be_optimized := False\<rparr>, graph) of
           Inl e \<Rightarrow> Inl e
         | Inr sg' \<Rightarrow> optimize_at_current_graph_level sg')
      else Inr (self, graph))"
  by pat_completeness auto
termination
proof (relation "measure (\<lambda>(self, g). 2 * length (graph_nodes g)
                            + (if graph_can_be_optimized self then 1 else 0))")
  show "wf (measure (\<lambda>(self, g). 2 * length (graph_nodes g)
                            + (if graph_can_be_optimized self then 1 else 0)))"
    by simp
next
  fix self :: optimizer and graph :: "'a graph" and sg'
  assume flag: "graph_can_be_optimized self"
    and m: "merge_duplicated_nodes (self\<lparr>graph_can_be_optimized := False\<rparr>, graph) = Inr sg'"
  have "round_progress graph sg'"
    using m by (rule merge_duplicated_nodes_progress) simp
  then show "(sg', self, graph) \<in> measure (\<lambda>(self, g). 2 * length (graph_nodes g)
                            + (if graph_can_be_optimized self then 1 else 0))"
    using flag by (cases sg') (auto simp: round_progress_def split: if_splits)
qed

lemma optimizer_eq: "graph_can_be_optimized (a::optimizer) = graph_can_be_optimized b \<Longrightarrow> a = b"
  by simp

lemma optimize_idle:
  "\<not> graph_can_be_optimized self \<Longrightarrow> optimize_at_current_graph_level (self, g) = Inr (self, g)"
  by simp

lemma optimize_total_flag:
  "\<exists>self' g'. optimize_at_current_graph_level (self, g) = Inr (self', g') \<and>
      \<not> graph_can_be_optimized self' \<and>
      (graph_can_be_optimized self \<longrightarrow> merge_duplicated_nodes (self', g') = Inr (self', g'))"
proof (induction "(self, g)" arbitrary: self g rule: optimize_at_current_graph_level.induct)
  case (1 self graph)
  show ?case
  proof (cases "graph_can_be_optimized self")
    case False
    then show ?thesis by simp
  next
    case True
    let ?s0 = "self\<lparr>graph_can_be_optimized := False\<rparr>"
    obtain s1 g1 where m: "merge_duplicated_nodes (?s0, graph) = Inr (s1, g1)"
      using merge_duplicated_nodes_total [of "(?s0, graph)"] by auto
    have step: "optimize_at_current_graph_level (self, graph) = optimize_at_current_graph_level (s1, g1)"
      using True m by simp
    from "1.hyps" [OF True m] obtain self' g' where
      r: "optimize_at_current_graph_level (s1, g1) = Inr (self', g')"
      and f: "\<not> graph_can_be_optimized self'"
      and fx: "graph_can_be_optimized s1 \<longrightarrow> merge_duplicated_nodes (self', g') = Inr (self', g')"
      by blast
    have "merge_duplicated_nodes (self', g') = Inr (self', g')"
    proof (cases "graph_can_be_optimized s1")
      case True
      with fx show ?thesis by simp
    next
      case False
      with r have eq: "self' = s1" "g' = g1" by simp_all
      have "round_progress graph (s1, g1)"
        using m by (rule merge_duplicated_nodes_progress) simp
      with False have "g1 = graph" by (simp add: round_progress_def)
      moreover have "s1 = ?s0" using False by (intro optimizer_eq) simp
      ultimately show ?thesis using m eq by simp
    qed
    with step r f show ?thesis by simp
  qed
qed


subsection \<open>The effect of merging a class\<close>

text \<open>
  What the loop over \<open>nodes_to_process[1:]\<close> does to the graph, in closed form. The
  members that are merged are those none of whose outputs is a declared graph output;
  \<open>merged_pairs\<close> lists, for each of them, its outputs next to the outputs of the retained
  node at the same positions, and \<open>merged_input\<close> is an input read through that list.
\<close>

definition unprotected :: "'a graph \<Rightarrow> 'a node list \<Rightarrow> 'a node list" where
  "unprotected g ns = filter (\<lambda>d. set (node_output d) \<inter> set (graph_outputs g) = {}) ns"

definition rename_input :: "(string \<times> string) list \<Rightarrow> string option \<Rightarrow> string option" where
  "rename_input ps x =
     (case x of
        None \<Rightarrow> None
      | Some s \<Rightarrow> (case map_of ps s of None \<Rightarrow> Some s | Some t \<Rightarrow> Some t))"

definition merged_pairs :: "'a node \<Rightarrow> 'a node list \<Rightarrow> (string \<times> string) list" where
  "merged_pairs r ds = concat (map (\<lambda>d. zip (node_output d) (node_output r)) ds)"

definition merged_input :: "'a node \<Rightarrow> 'a node list \<Rightarrow> string option \<Rightarrow> string option" where
  "merged_input r ds = rename_input (merged_pairs r ds)"

definition map_inputs :: "(string option \<Rightarrow> string option) \<Rightarrow> 'a node \<Rightarrow> 'a node" where
  "map_inputs f n = n\<lparr>node_input := map f (node_input n)\<rparr>"

definition merged_into :: "'a node \<Rightarrow> 'a node list \<Rightarrow> 'a graph \<Rightarrow> 'a graph" where
  "merged_into r ds g =
     g\<lparr>graph_nodes :=
         map (map_inputs (merged_input r ds))
           (filter (\<lambda>n. node_name n \<notin> node_name ` set ds) (graph_nodes g))\<rparr>"

lemma replace_all_inputs_all:
  "replace_all_inputs g (map node_name (get_nodes g)) a b
     = g\<lparr>graph_nodes := map (replace_input a b) (graph_nodes g)\<rparr>"
  by (simp add: replace_all_inputs_def get_nodes_def)

lemma rename_input_Nil [simp]: "rename_input [] = (\<lambda>x. x)"
  by (simp add: fun_eq_iff rename_input_def split: option.splits)

lemma map_inputs_ident [simp]: "map_inputs (\<lambda>x. x) = (\<lambda>n. n)"
  by (simp add: fun_eq_iff map_inputs_def)

lemma node_name_map_inputs [simp]: "node_name (map_inputs f n) = node_name n"
  by (simp add: map_inputs_def)

lemma map_inputs_map_inputs [simp]: "map_inputs f (map_inputs h n) = map_inputs (f \<circ> h) n"
  by (simp add: map_inputs_def)

lemma rename_input_Cons:
  assumes "b \<notin> fst ` set ps"
  shows "rename_input ps (if x = Some a then Some b else x) = rename_input ((a, b) # ps) x"
proof -
  from assms have "map_of ps b = None" by (simp add: map_of_eq_None_iff)
  then show ?thesis by (auto simp: rename_input_def split: option.splits)
qed

lemma rename_input_append:
  assumes "snd ` set ps \<inter> fst ` set qs = {}"
  shows "rename_input qs (rename_input ps x) = rename_input (ps @ qs) x"
proof (cases x)
  case None
  then show ?thesis by (simp add: rename_input_def)
next
  case (Some s)
  show ?thesis
  proof (cases "map_of ps s")
    case None
    with Some show ?thesis by (simp add: rename_input_def map_add_def split: option.splits)
  next
    case (Some t)
    then have "(s, t) \<in> set ps" by (rule map_of_SomeD)
    then have "t \<in> snd ` set ps" by force
    with assms have "t \<notin> fst ` set qs" by blast
    then have "map_of qs t = None" by (simp add: map_of_eq_None_iff)
    with Some \<open>x = Some s\<close> show ?thesis
      by (simp add: rename_input_def map_add_def split: option.splits)
  qed
qed

lemma rename_input_other:
  assumes "x \<notin> Some ` fst ` set ps"
  shows "rename_input ps x = x"
proof (cases x)
  case None
  then show ?thesis by (simp add: rename_input_def)
next
  case (Some s)
  with assms have "s \<notin> fst ` set ps" by blast
  then have "map_of ps s = None" by (simp add: map_of_eq_None_iff)
  with Some show ?thesis by (simp add: rename_input_def)
qed

lemma rewire_fold_closed:
  assumes "snd ` set ps \<inter> fst ` set ps = {}"
  shows "fold (\<lambda>(old_input, new_input) g'.
           replace_all_inputs g' (map node_name (get_nodes g')) (Some old_input) (Some new_input)) ps g
         = g\<lparr>graph_nodes := map (map_inputs (rename_input ps)) (graph_nodes g)\<rparr>"
  using assms
proof (induction ps arbitrary: g)
  case Nil
  then show ?case by simp
next
  case (Cons p ps)
  obtain a b where p: "p = (a, b)" by (cases p)
  from Cons.prems have d: "snd ` set ps \<inter> fst ` set ps = {}" by auto
  from Cons.prems have b: "b \<notin> fst ` set ps" unfolding p by auto
  have step: "map_inputs (rename_input ps) (replace_input (Some a) (Some b) n)
      = map_inputs (rename_input ((a, b) # ps)) n" for n :: "'a node"
    by (simp add: map_inputs_def replace_input_def rename_input_Cons [OF b])
  let ?F = "\<lambda>(old_input, new_input) g'.
           replace_all_inputs g' (map node_name (get_nodes g')) (Some old_input) (Some new_input)"
  let ?g1 = "g\<lparr>graph_nodes := map (replace_input (Some a) (Some b)) (graph_nodes g)\<rparr>"
  have "fold ?F ((a, b) # ps) g = fold ?F ps ?g1"
    by (simp add: replace_all_inputs_all)
  also have "\<dots> = ?g1\<lparr>graph_nodes := map (map_inputs (rename_input ps)) (graph_nodes ?g1)\<rparr>"
    by (rule Cons.IH [OF d])
  also have "\<dots> = g\<lparr>graph_nodes := map (map_inputs (rename_input ((a, b) # ps))) (graph_nodes g)\<rparr>"
    by (simp add: step)
  finally show ?case unfolding p .
qed

lemma rewire_to_retained_closed:
  assumes "set (node_output d) \<inter> set (node_output r) = {}"
  shows "rewire_to_retained d r g
         = g\<lparr>graph_nodes :=
               map (map_inputs (rename_input (zip (node_output d) (node_output r)))) (graph_nodes g)\<rparr>"
proof -
  have "snd ` set (zip (node_output d) (node_output r)) \<subseteq> set (node_output r)"
    "fst ` set (zip (node_output d) (node_output r)) \<subseteq> set (node_output d)"
    by (auto dest: set_zip_leftD set_zip_rightD)
  with assms have "snd ` set (zip (node_output d) (node_output r))
      \<inter> fst ` set (zip (node_output d) (node_output r)) = {}"
    by blast
  then show ?thesis
    unfolding rewire_to_retained_def by (rule rewire_fold_closed)
qed

lemma fst_merged_pairs: "fst ` set (merged_pairs r ds) \<subseteq> (\<Union>d\<in>set ds. set (node_output d))"
  by (auto simp: merged_pairs_def dest!: set_zip_leftD)

lemma merged_input_Cons:
  assumes "\<forall>d'\<in>set ds. set (node_output d') \<inter> set (node_output r) = {}"
  shows "merged_input r ds \<circ> rename_input (zip (node_output d) (node_output r))
         = merged_input r (d # ds)"
proof
  fix x
  have "snd ` set (zip (node_output d) (node_output r)) \<subseteq> set (node_output r)"
    by (auto dest: set_zip_rightD)
  with assms fst_merged_pairs [of r ds]
  have "snd ` set (zip (node_output d) (node_output r)) \<inter> fst ` set (merged_pairs r ds) = {}"
    by blast
  from rename_input_append [OF this]
  show "(merged_input r ds \<circ> rename_input (zip (node_output d) (node_output r))) x
         = merged_input r (d # ds) x"
    by (simp add: merged_input_def merged_pairs_def)
qed

lemma fold_delete_or_keep_closed:
  assumes "\<forall>d\<in>set rest. set (node_output d) \<inter> set (node_output r) = {}"
  shows "fold (delete_or_keep r) rest (self, g)
         = (self\<lparr>graph_can_be_optimized := graph_can_be_optimized self \<or> unprotected g rest \<noteq> []\<rparr>,
            merged_into r (unprotected g rest) g)"
  using assms
proof (induction rest arbitrary: self g)
  case Nil
  then show ?case
    by (simp add: unprotected_def merged_into_def merged_input_def merged_pairs_def)
next
  case (Cons d rest)
  from Cons.prems have dr: "set (node_output d) \<inter> set (node_output r) = {}"
    and rest: "\<forall>d\<in>set rest. set (node_output d) \<inter> set (node_output r) = {}"
    by simp_all
  show ?case
  proof (cases "set (node_output d) \<inter> set (graph_outputs g) = {}")
    case False
    then have "delete_or_keep r d (self, g) = (self, g)" by (simp add: delete_or_keep_def)
    moreover from False have "unprotected g (d # rest) = unprotected g rest"
      by (simp add: unprotected_def)
    ultimately show ?thesis using Cons.IH [OF rest] by simp
  next
    case True
    let ?g1 = "remove_node (rewire_to_retained d r g) (node_name d)"
    let ?U = "unprotected g rest"
    from True have step: "delete_or_keep r d (self, g) = (self\<lparr>graph_can_be_optimized := True\<rparr>, ?g1)"
      by (simp add: delete_or_keep_def)
    have outs: "unprotected ?g1 rest = ?U" by (simp add: unprotected_def)
    from True have u: "unprotected g (d # rest) = d # ?U" by (simp add: unprotected_def)
    have sub: "\<forall>d'\<in>set ?U. set (node_output d') \<inter> set (node_output r) = {}"
      using rest by (simp add: unprotected_def)
    have g1: "?g1 = g\<lparr>graph_nodes :=
        map (map_inputs (rename_input (zip (node_output d) (node_output r))))
          (filter (\<lambda>n. node_name n \<noteq> node_name d) (graph_nodes g))\<rparr>"
      by (simp add: rewire_to_retained_closed [OF dr] remove_node_def filter_map comp_def)
    have "merged_into r ?U ?g1 = merged_into r (d # ?U) g"
      unfolding g1 merged_into_def
      by (simp add: filter_map comp_def merged_input_Cons [OF sub, unfolded comp_def] conj_commute)
    with Cons.IH [OF rest, of "self\<lparr>graph_can_be_optimized := True\<rparr>" ?g1] step outs u
    show ?thesis by simp
  qed
qed

lemma map_fst_merged_pairs:
  assumes "\<forall>d\<in>set ds. length (node_output d) \<le> length (node_output r)"
  shows "map fst (merged_pairs r ds) = concat (map node_output ds)"
  using assms by (induction ds) (simp_all add: merged_pairs_def map_fst_zip_take)

lemma merged_input_nth:
  assumes "distinct (concat (map node_output ds))"
    and "\<forall>d\<in>set ds. length (node_output d) \<le> length (node_output r)"
    and "d \<in> set ds"
    and "j < length (node_output d)"
  shows "merged_input r ds (Some (node_output d ! j)) = Some (node_output r ! j)"
proof -
  from assms(2,3) have "j < length (node_output r)" using assms(4) by fastforce
  with assms(4) have "(node_output d ! j, node_output r ! j) \<in> set (zip (node_output d) (node_output r))"
    by (auto simp: set_zip)
  with assms(3) have "(node_output d ! j, node_output r ! j) \<in> set (merged_pairs r ds)"
    by (auto simp: merged_pairs_def)
  moreover have "distinct (map fst (merged_pairs r ds))"
    using assms(1) by (simp add: map_fst_merged_pairs [OF assms(2)])
  ultimately have "map_of (merged_pairs r ds) (node_output d ! j) = Some (node_output r ! j)"
    by simp
  then show ?thesis by (simp add: merged_input_def rename_input_def)
qed

lemma merged_input_other:
  assumes "x \<notin> Some ` (\<Union>d\<in>set ds. set (node_output d))"
  shows "merged_input r ds x = x"
  unfolding merged_input_def
  using assms fst_merged_pairs [of r ds] by (intro rename_input_other) blast

lemma distinct_concat_filter:
  "distinct (concat (map f xs)) \<Longrightarrow> distinct (concat (map f (filter P xs)))"
  by (induction xs) auto


section \<open>The loop rewriter: data model\<close>

text \<open>Raising and propagating: the first error ends the computation.\<close>

definition bind_err :: "error + 'x \<Rightarrow> ('x \<Rightarrow> error + 'y) \<Rightarrow> error + 'y" where
  "bind_err m f = (case m of Inl e \<Rightarrow> Inl e | Inr x \<Rightarrow> f x)"

lemma bind_err_cong [fundef_cong]:
  "m = m' \<Longrightarrow> (\<And>x. m' = Inr x \<Longrightarrow> f x = f' x) \<Longrightarrow> bind_err m f = bind_err m' f'"
  by (cases m') (simp_all add: bind_err_def)

text \<open>\<open>xs[i]\<close> raises \<open>IndexError\<close> out of range; an attribute of \<open>None\<close> raises
  \<open>AttributeError\<close>; a string or \<open>None\<close> in a condition is true when it is a non-empty
  string.\<close>

definition py_index :: "'x list \<Rightarrow> nat \<Rightarrow> error + 'x" where
  "py_index xs i = (if i < length xs then Inr (xs ! i) else Inl IndexError)"

definition attr_of :: "'x option \<Rightarrow> error + 'x" where
  "attr_of x = (case x of None \<Rightarrow> Inl AttributeError | Some v \<Rightarrow> Inr v)"

definition truthy :: "string option \<Rightarrow> bool" where
  "truthy x = (case x of None \<Rightarrow> False | Some s \<Rightarrow> s \<noteq> [])"

text \<open>
  Modelled from the spec: \<open>utils.make_sure\<close>, \<open>utils.make_name\<close> and
  \<open>utils.TensorValueInfo\<close> are not among the sources. A failed \<open>make_sure\<close> is a fatal
  error carrying the formatted message; the sentinel ``invalid'' identifier is one fixed
  name; a tensor reference is an identifier (possibly absent), resolvable on demand.
\<close>

definition make_sure :: "bool \<Rightarrow> string \<Rightarrow> error + unit" where
  "make_sure bool_val error_msg =
     (if bool_val then Inr () else Inl (ValueError (''make_sure failure: '' @ error_msg)))"

definition INVALID_INPUT_ID :: string where
  "INVALID_INPUT_ID = ''invalid_input_id__1''"

datatype tensor_value_info = TensorValueInfo (tvi_id: "string option")

text \<open>
  Modelled from the spec: the node-kind tests of \<open>rnn_utils\<close> and \<open>Node.is_const\<close> are
  not among the sources; each tests the operator type tag of the primitive it names.
\<close>

definition is_loopcond_op :: "'a node \<Rightarrow> bool" where
  "is_loopcond_op op = (node_type op = ''LoopCond'')"

definition is_tensor_array_op :: "'a node \<Rightarrow> bool" where
  "is_tensor_array_op op = (node_type op = ''TensorArrayV3'')"

definition is_tensor_array_write_op :: "'a node \<Rightarrow> bool" where
  "is_tensor_array_write_op op = (node_type op = ''TensorArrayWriteV3'')"

definition is_tensor_array_gather_op :: "'a node \<Rightarrow> bool" where
  "is_tensor_array_gather_op op = (node_type op = ''TensorArrayGatherV3'')"

definition is_const :: "'a node \<Rightarrow> bool" where
  "is_const n = (node_type n \<in> set [''Const'', ''ConstV2''])"

text \<open>
  Modelled from the spec: \<open>Node.inputs\<close>, the ``direct producer-node references for its
  inputs'', one per input position, \<open>None\<close> where the graph has no producer.
\<close>

definition node_inputs :: "'a graph \<Rightarrow> 'a node \<Rightarrow> 'a node option list" where
  "node_inputs g n = map (get_node_by_output g) (node_input n)"

text \<open>
  A node object is held by value. Of its fields only the inputs are ever written, by
  \<open>replace_all_inputs\<close>; \<open>current g n\<close> is the object as the graph has it now.
\<close>

definition current :: "'a graph \<Rightarrow> 'a node \<Rightarrow> 'a node" where
  "current g n =
     (case find (\<lambda>m. node_name m = node_name n) (graph_nodes g) of
        Some m \<Rightarrow> m
      | None \<Rightarrow> n)"

text \<open>\<open>[n for n in nodes if n.type == ty]\<close> over a list that may hold \<open>None\<close>.\<close>

fun nodes_of_type :: "string \<Rightarrow> 'a node option list \<Rightarrow> error + 'a node list" where
  "nodes_of_type ty [] = Inr []"
| "nodes_of_type ty (None # rest) = Inl AttributeError"
| "nodes_of_type ty (Some n # rest) =
     (if node_type n = ty then bind_err (nodes_of_type ty rest) (\<lambda>ns. Inr (n # ns))
      else nodes_of_type ty rest)"

subsection \<open>LoopVariable, InputTensorArray, LoopProperties, GraphInfo, Context\<close>

record loop_variable =
  enter_name :: string
  enter_input_id :: "string option"
  next_iteration_input :: tensor_value_info
  switch_true_identity_output :: tensor_value_info
  exit_output :: tensor_value_info
  is_tensor_array :: bool
  ta_index_id :: "string option"

definition LoopVariable ::
  "string \<Rightarrow> string option \<Rightarrow> string option \<Rightarrow> string option \<Rightarrow> string option \<Rightarrow> bool
     \<Rightarrow> string option \<Rightarrow> error + loop_variable" where
  "LoopVariable enter_name' enter_input_id' next_iteration_input_id
       switch_true_identity_output_id exit_output_id is_tensor_array' ta_index_id' =
     bind_err (make_sure (truthy next_iteration_input_id)
                 ''next_iteration_input_id should not be None'')
       (\<lambda>_. Inr \<lparr>enter_name = enter_name',
                 enter_input_id = enter_input_id',
                 next_iteration_input = TensorValueInfo next_iteration_input_id,
                 switch_true_identity_output = TensorValueInfo switch_true_identity_output_id,
                 exit_output = TensorValueInfo exit_output_id,
                 is_tensor_array = is_tensor_array',
                 ta_index_id = ta_index_id'\<rparr>)"

record input_tensor_array =
  index_input_id :: "string option"
  data_input_id :: "string option"
  consumer :: tensor_value_info

definition InputTensorArray ::
  "string option \<Rightarrow> string option \<Rightarrow> string option \<Rightarrow> input_tensor_array" where
  "InputTensorArray data_input_id' index_input_id' consumer_id =
     \<lparr>index_input_id = index_input_id', data_input_id = data_input_id',
      consumer = TensorValueInfo consumer_id\<rparr>"

text \<open>An \<open>OrderedDict\<close>: an association list in insertion order, one entry per key.\<close>

type_synonym 'v ordered_dict = "(string \<times> 'v) list"

fun od_set :: "string \<Rightarrow> 'v \<Rightarrow> 'v ordered_dict \<Rightarrow> 'v ordered_dict" where
  "od_set k v [] = [(k, v)]"
| "od_set k v ((k', v') # d) = (if k' = k then (k, v) # d else (k', v') # od_set k v d)"

definition od_keys :: "'v ordered_dict \<Rightarrow> string list" where
  "od_keys d = map fst d"

definition od_values :: "'v ordered_dict \<Rightarrow> 'v list" where
  "od_values d = map snd d"

definition od_update :: "'v ordered_dict \<Rightarrow> 'v ordered_dict \<Rightarrow> 'v ordered_dict" where
  "od_update d other = fold (\<lambda>(k, v) acc. od_set k v acc) other d"

definition od_get :: "'v ordered_dict \<Rightarrow> string \<Rightarrow> error + 'v" where
  "od_get d k = (case map_of d k of None \<Rightarrow> Inl (KeyError k) | Some v \<Rightarrow> Inr v)"

record loop_properties =
  state_variables :: "loop_variable ordered_dict"
  scan_variables :: "loop_variable ordered_dict"
  tensor_array_inputs :: "input_tensor_array list"

definition LoopProperties :: loop_properties where
  "LoopProperties = \<lparr>state_variables = [], scan_variables = [], tensor_array_inputs = []\<rparr>"

text \<open>\<open>add_variable\<close>. The argument may be \<open>None\<close>: the caller passes on whatever
  \<open>_get_loop_var_from_switch\<close> returned.\<close>

definition add_variable :: "loop_properties \<Rightarrow> loop_variable option \<Rightarrow> error + loop_properties" where
  "add_variable self var =
     bind_err (attr_of var) (\<lambda>v.
     bind_err (make_sure (enter_name v \<notin> set (od_keys (scan_variables self)))
                 (''variable '' @ enter_name v @ '' already exists as scan variable.'')) (\<lambda>_.
     bind_err (make_sure (enter_name v \<notin> set (od_keys (state_variables self)))
                 (''variable '' @ enter_name v @ '' already exists as state variable.'')) (\<lambda>_.
     if \<not> is_tensor_array v
     then Inr (self\<lparr>state_variables := od_set (enter_name v) v (state_variables self)\<rparr>)
     else Inr (self\<lparr>scan_variables := od_set (enter_name v) v (scan_variables self)\<rparr>))))"

definition all_variables :: "loop_properties \<Rightarrow> loop_variable ordered_dict" where
  "all_variables self = od_update (state_variables self) (scan_variables self)"

definition state_inputs :: "loop_properties \<Rightarrow> tensor_value_info list" where
  "state_inputs self = map switch_true_identity_output (od_values (state_variables self))"

definition state_outputs :: "loop_properties \<Rightarrow> tensor_value_info list" where
  "state_outputs self = map next_iteration_input (od_values (state_variables self))"

definition scan_outputs :: "loop_properties \<Rightarrow> tensor_value_info list" where
  "scan_outputs self = map next_iteration_input (od_values (scan_variables self))"

definition add_scan_input :: "loop_properties \<Rightarrow> input_tensor_array \<Rightarrow> loop_properties" where
  "add_scan_input self input_tensor_array =
     self\<lparr>tensor_array_inputs := tensor_array_inputs self @ [input_tensor_array]\<rparr>"

definition scan_inputs :: "loop_properties \<Rightarrow> tensor_value_info list" where
  "scan_inputs self = map consumer (tensor_array_inputs self)"

text \<open>\<open>GraphInfo\<close>: the node set is kept as the names of its members.\<close>

record graph_info =
  gi_nodes :: "string list"
  gi_inputs :: "tensor_value_info list"
  gi_outputs :: "tensor_value_info list"
  dependent_vars :: "loop_variable list option"

definition GraphInfo ::
  "string list \<Rightarrow> tensor_value_info list \<Rightarrow> tensor_value_info list \<Rightarrow> graph_info" where
  "GraphInfo ops ins outs =
     \<lparr>gi_nodes = ops, gi_inputs = ins, gi_outputs = outs, dependent_vars = None\<rparr>"

record 'a loop_context =
  while_context_scope :: "string option"
  loop_properties :: loop_properties
  loop_cond :: "'a node option"
  cell_graph :: "graph_info option"
  cond_graph :: "graph_info option"

definition Context :: "'a loop_context" where
  "Context = \<lparr>while_context_scope = None, loop_properties = LoopProperties, loop_cond = None,
              cell_graph = None, cond_graph = None\<rparr>"


section \<open>The loop rewriter: classification\<close>

text \<open>\<open>name.split('/')\<close> and \<open>'/'.join(parts)\<close>.\<close>

fun split_on :: "char \<Rightarrow> string \<Rightarrow> string list" where
  "split_on c [] = [[]]"
| "split_on c (x # xs) =
     (if x = c then [] # split_on c xs
      else (case split_on c xs of
              [] \<Rightarrow> [[x]]
            | p # ps \<Rightarrow> (x # p) # ps))"

fun join_with :: "string \<Rightarrow> string list \<Rightarrow> string" where
  "join_with sep [] = []"
| "join_with sep [p] = p"
| "join_with sep (p # q # ps) = p @ sep @ join_with sep (q # ps)"

text \<open>
  \<open>_get_loop_var_from_switch\<close>, in the order of the source. The true branch (lines
  342-352), the false branch (lines 363-375) and the tensor-array part (lines 377-394)
  are named parts of it, and so is everything that follows the true branch (lines 354-399,
  \<open>loop_var_after_true_branch\<close>).
\<close>

definition switch_true_branch :: "'a graph \<Rightarrow> 'a node \<Rightarrow> error + string option" where
  "switch_true_branch g switch_node =
     bind_err (py_index (node_output switch_node) 1) (\<lambda>o1.
       let switch_consumers = find_output_consumers g (Some o1);
           switch_true_consumer_cnt = length switch_consumers
       in if switch_true_consumer_cnt = 0 then Inr None
          else if switch_true_consumer_cnt = 1 then
            (if node_type (switch_consumers ! 0) \<noteq> ''Identity''
             then Inl (ValueError ''switch has consumer that is not Identity'')
             else bind_err (py_index (node_output (switch_consumers ! 0)) 0) (\<lambda>o0. Inr (Some o0)))
          else Inl (ValueError (''switch_true '' @ node_name switch_node
                                @ '' has unexpected count of consumers:'')))"

definition switch_false_branch :: "'a graph \<Rightarrow> 'a node \<Rightarrow> error + string option" where
  "switch_false_branch g switch_node =
     bind_err (py_index (node_output switch_node) 0) (\<lambda>o0.
       let switch_false_consumers = find_output_consumers g (Some o0);
           false_consumer_count = length switch_false_consumers
       in if false_consumer_count = 1 then
            (if node_type (switch_false_consumers ! 0) \<noteq> ''Exit''
             then Inl (ValueError ''switch false branch is followed by non-Exit'')
             else bind_err (py_index (node_output (switch_false_consumers ! 0)) 0)
                    (\<lambda>e0. Inr (Some e0)))
          else if false_consumer_count = 0 then Inr None
          else Inl (ValueError ''unexpected number of switch false consumers''))"

definition tensor_array_part ::
  "'a graph \<Rightarrow> string option \<Rightarrow> string option \<Rightarrow> string option
     \<Rightarrow> error + (bool \<times> string option \<times> string option \<times> string option)" where
  "tensor_array_part g target_node_input_id last_iteration_output_id exit_output_id =
     bind_err (attr_of (get_node_by_output g target_node_input_id)) (\<lambda>target.
       if is_tensor_array_op target then
         bind_err (attr_of (get_node_by_output g last_iteration_output_id)) (\<lambda>ta_write_node.
         bind_err (make_sure (is_tensor_array_write_op ta_write_node)
                     ''ta nextiteration is not following ta write op'') (\<lambda>_.
         bind_err (py_index (node_input ta_write_node) 2) (\<lambda>last_iteration_output_id'.
         bind_err (py_index (node_input ta_write_node) 1) (\<lambda>ta_index_id.
           if truthy exit_output_id then
             bind_err (py_index (filter is_tensor_array_gather_op
                                   (find_output_consumers g exit_output_id)) 0) (\<lambda>ta_gather_node.
             bind_err (py_index (node_output ta_gather_node) 0) (\<lambda>exit_output_id'.
               Inr (True, ta_index_id, last_iteration_output_id', Some exit_output_id')))
           else Inr (True, ta_index_id, last_iteration_output_id', exit_output_id)))))
       else Inr (False, None, last_iteration_output_id, exit_output_id))"

definition loop_var_after_true_branch ::
  "'a graph \<Rightarrow> 'a node \<Rightarrow> 'a node \<Rightarrow> string option \<Rightarrow> error + loop_variable option" where
  "loop_var_after_true_branch g switch_node merge_node switch_true_identity_output' =
     bind_err (nodes_of_type ''Enter'' (node_inputs g merge_node)) (\<lambda>enters.
     bind_err (py_index enters 0) (\<lambda>enter_node.
     bind_err (py_index (node_input enter_node) 0) (\<lambda>target_node_input_id.
     bind_err (py_index (node_inputs g enter_node) 0) (\<lambda>enter_producer.
     bind_err (attr_of enter_producer) (\<lambda>_.
     bind_err (nodes_of_type ''NextIteration'' (node_inputs g merge_node)) (\<lambda>next_iterations.
     bind_err (py_index next_iterations 0) (\<lambda>next_iteration_node.
     bind_err (py_index (node_input next_iteration_node) 0) (\<lambda>last_iteration_output_id.
     bind_err (switch_false_branch g switch_node) (\<lambda>exit_output_id.
     bind_err (tensor_array_part g target_node_input_id last_iteration_output_id
                 exit_output_id) (\<lambda>(is_ta, ta_index_id, last_iteration_output_id', exit_output_id').
     bind_err (LoopVariable (node_name enter_node) target_node_input_id
                 last_iteration_output_id' switch_true_identity_output' exit_output_id'
                 is_ta ta_index_id) (\<lambda>loop_var.
       Inr (Some loop_var))))))))))))"

definition get_loop_var_from_switch :: "'a graph \<Rightarrow> 'a node \<Rightarrow> error + loop_variable option" where
  "get_loop_var_from_switch g switch_node =
     (if node_type switch_node \<noteq> ''Switch'' then Inr None
      else
        bind_err (py_index (node_inputs g switch_node) 0) (\<lambda>merge_node_ref.
        bind_err (attr_of merge_node_ref) (\<lambda>merge_node.
          if node_type merge_node \<noteq> ''Merge'' then Inr None
          else
            bind_err (switch_true_branch g switch_node) (\<lambda>switch_true_identity_output.
              loop_var_after_true_branch g switch_node merge_node
                switch_true_identity_output))))"

text \<open>\<open>_parse_loop_variables\<close>: the loop over the consumers of the predicate.\<close>

fun for_each_switch :: "'a graph \<Rightarrow> 'a node list \<Rightarrow> 'a loop_context \<Rightarrow> error + 'a loop_context" where
  "for_each_switch g [] context = Inr context"
| "for_each_switch g (s # rest) context =
     (if node_type s \<noteq> ''Switch''
      then Inl (ValueError (''LoopCond'' @ [CHR 0x27]
                            @ ''s output node should be followed with a Switch node''))
      else
        bind_err (get_loop_var_from_switch g s) (\<lambda>loop_var.
        bind_err (add_variable (loop_properties context) loop_var) (\<lambda>props.
          for_each_switch g rest (context\<lparr>loop_properties := props\<rparr>))))"

definition parse_loop_variables :: "'a graph \<Rightarrow> 'a loop_context \<Rightarrow> error + 'a loop_context" where
  "parse_loop_variables g context =
     bind_err (attr_of (loop_cond context)) (\<lambda>loop_cond_op.
       let parts = split_on CHR ''/'' (node_name loop_cond_op);
           context' = context\<lparr>while_context_scope :=
                        Some (join_with ''/'' (butlast parts) @ ''/'')\<rparr>
       in bind_err (py_index (node_output loop_cond_op) 0) (\<lambda>o0.
            for_each_switch g (find_output_consumers g (Some o0)) context'))"

text \<open>
  \<open>_parse_input_ta\<close>. The pattern matcher is not among the sources and its engine is out
  of scope; \<open>match_ops\<close> stands for \<open>GraphMatcher(self.ta_read_input_pattern).match_ops\<close>
  and returns, for each match, the nodes bound to the captures the code reads.
\<close>

record 'a ta_match =
  ta_read :: "'a node"
  ta_index :: "'a node"
  ta_input_scatter :: "'a node"

fun index_in_graph_inputs ::
  "string option list \<Rightarrow> 'a ta_match list \<Rightarrow> error + 'a ta_match list" where
  "index_in_graph_inputs graph_inputs [] = Inr []"
| "index_in_graph_inputs graph_inputs (r # rs) =
     bind_err (py_index (node_output (ta_index r)) 0) (\<lambda>o0.
     bind_err (index_in_graph_inputs graph_inputs rs) (\<lambda>rest.
       Inr (if Some o0 \<in> set graph_inputs then r # rest else rest)))"

fun for_each_match :: "'a ta_match list \<Rightarrow> 'a loop_context \<Rightarrow> error + 'a loop_context" where
  "for_each_match [] context = Inr context"
| "for_each_match (m # rest) context =
     bind_err (py_index (node_input (ta_input_scatter m)) 2) (\<lambda>data_input_id.
     bind_err (py_index (node_input (ta_read m)) 1) (\<lambda>index_input_id.
     bind_err (py_index (node_output (ta_read m)) 0) (\<lambda>unstacked_ta_consumer.
       for_each_match rest
         (context\<lparr>loop_properties :=
            add_scan_input (loop_properties context)
              (InputTensorArray data_input_id index_input_id (Some unstacked_ta_consumer))\<rparr>))))"

definition parse_input_ta ::
  "('a graph \<Rightarrow> 'a ta_match list) \<Rightarrow> 'a graph \<Rightarrow> 'a loop_context \<Rightarrow> error + 'a loop_context" where
  "parse_input_ta match_ops g context =
     (let graph_inputs =
            filter truthy
              (map (\<lambda>v. tvi_id (switch_true_identity_output v))
                 (od_values (all_variables (loop_properties context))))
      in bind_err (index_in_graph_inputs graph_inputs (match_ops g)) (\<lambda>match_results.
           for_each_match match_results context))"

definition check_in_read_only_mode ::
  "('a graph \<Rightarrow> 'a ta_match list) \<Rightarrow> 'a graph \<Rightarrow> 'a loop_context \<Rightarrow> error + 'a loop_context" where
  "check_in_read_only_mode match_ops g context =
     bind_err (parse_loop_variables g context) (\<lambda>context'.
       parse_input_ta match_ops g context')"


section \<open>The loop rewriter: cropping\<close>

text \<open>
  Modelled from the spec: \<open>Graph.extract_sub_graph_nodes\<close> and
  \<open>Graph.delete_unused_nodes\<close> are not among the sources. The first is the ``generic
  backward-reachability subroutine'' that ``computes the closed ancestor node set required
  to produce a given output tensor set, subject to an extensible boundary predicate'': a
  node the predicate rejects is excluded and not searched through. The predicate has
  effects (it records the nodes it stops at), so it takes and returns the caller's
  collections. The second is the ``final reachability cleanup seeded from the parent
  graph's declared outputs, dropping every unreached node''.

  The sets of the traversal are lists without repetition. A node leaves the processing
  set once; the first test of \<open>extract_from\<close> says so for a processing list.
\<close>

definition set_add :: "'x \<Rightarrow> 'x list \<Rightarrow> 'x list" where
  "set_add x xs = (if x \<in> set xs then xs else xs @ [x])"

fun visit_inputs ::
  "'a graph \<Rightarrow> ('a node \<Rightarrow> 's \<Rightarrow> bool \<times> 's) \<Rightarrow> string option list \<Rightarrow> 'a node list
     \<Rightarrow> 'a node list \<Rightarrow> 's \<Rightarrow> 'a node list \<times> 's" where
  "visit_inputs g input_checker [] res_set processing_set s = (processing_set, s)"
| "visit_inputs g input_checker (input_id # ids) res_set processing_set s =
     (case get_node_by_output g input_id of
        None \<Rightarrow> visit_inputs g input_checker ids res_set processing_set s
      | Some node \<Rightarrow>
          if node \<in> set res_set then visit_inputs g input_checker ids res_set processing_set s
          else (case input_checker node s of
                  (ok, s') \<Rightarrow>
                    if ok then visit_inputs g input_checker ids res_set
                                 (set_add node processing_set) s'
                    else visit_inputs g input_checker ids res_set processing_set s'))"

function extract_from ::
  "'a graph \<Rightarrow> ('a node \<Rightarrow> 's \<Rightarrow> bool \<times> 's) \<Rightarrow> 'a node list \<Rightarrow> 'a node list \<Rightarrow> 's
     \<Rightarrow> 'a node list \<times> 's" where
  "extract_from g input_checker [] res_set s = (res_set, s)"
| "extract_from g input_checker (top_node # processing_set) res_set s =
     (if top_node \<in> set res_set \<or> top_node \<notin> set (get_nodes g)
      then extract_from g input_checker processing_set res_set s
      else (case visit_inputs g input_checker (node_input top_node) (res_set @ [top_node])
                   processing_set s of
              (processing_set', s') \<Rightarrow>
                extract_from g input_checker processing_set' (res_set @ [top_node]) s'))"
  by pat_completeness auto
termination
proof (relation "measures
         [\<lambda>(g, input_checker, processing_set, res_set, s). card (set (get_nodes g) - set res_set),
          \<lambda>(g, input_checker, processing_set, res_set, s). length processing_set]")
  show "wf (measures
         [\<lambda>(g, input_checker, processing_set, res_set, s). card (set (get_nodes g) - set res_set),
          \<lambda>(g, input_checker, processing_set, res_set, s). length processing_set])"
    by simp
next
  fix g :: "'a graph" and input_checker :: "'a node \<Rightarrow> 's \<Rightarrow> bool \<times> 's"
    and top_node processing_set res_set and s :: 's
  assume "top_node \<in> set res_set \<or> top_node \<notin> set (get_nodes g)"
  then show "((g, input_checker, processing_set, res_set, s),
              g, input_checker, top_node # processing_set, res_set, s)
       \<in> measures
         [\<lambda>(g, input_checker, processing_set, res_set, s). card (set (get_nodes g) - set res_set),
          \<lambda>(g, input_checker, processing_set, res_set, s). length processing_set]"
    by simp
next
  fix g :: "'a graph" and input_checker :: "'a node \<Rightarrow> 's \<Rightarrow> bool \<times> 's"
    and top_node processing_set res_set and s :: 's and x processing_set' s'
  assume a: "\<not> (top_node \<in> set res_set \<or> top_node \<notin> set (get_nodes g))"
  have "set (get_nodes g) - set (res_set @ [top_node]) \<subset> set (get_nodes g) - set res_set"
    using a by auto
  then have "card (set (get_nodes g) - set (res_set @ [top_node]))
      < card (set (get_nodes g) - set res_set)"
    by (intro psubset_card_mono) simp_all
  then show "((g, input_checker, processing_set', res_set @ [top_node], s'),
              g, input_checker, top_node # processing_set, res_set, s)
       \<in> measures
         [\<lambda>(g, input_checker, processing_set, res_set, s). card (set (get_nodes g) - set res_set),
          \<lambda>(g, input_checker, processing_set, res_set, s). length processing_set]"
    by simp
qed

fun extract_outputs ::
  "'a graph \<Rightarrow> ('a node \<Rightarrow> 's \<Rightarrow> bool \<times> 's) \<Rightarrow> string option list \<Rightarrow> 'a node list \<Rightarrow> 's
     \<Rightarrow> 'a node list \<times> 's" where
  "extract_outputs g input_checker [] res_set s = (res_set, s)"
| "extract_outputs g input_checker (output_name # rest) res_set s =
     (case get_node_by_output g output_name of
        None \<Rightarrow> extract_outputs g input_checker rest res_set s
      | Some dest_node \<Rightarrow>
          (case input_checker dest_node s of
             (ok, s') \<Rightarrow>
               if ok then
                 (case extract_from g input_checker [dest_node] res_set s' of
                    (res_set', s'') \<Rightarrow> extract_outputs g input_checker rest res_set' s'')
               else extract_outputs g input_checker rest res_set s'))"

definition extract_sub_graph_nodes ::
  "'a graph \<Rightarrow> string option list \<Rightarrow> ('a node \<Rightarrow> 's \<Rightarrow> bool \<times> 's) \<Rightarrow> 's
     \<Rightarrow> 'a node list \<times> 's" where
  "extract_sub_graph_nodes g outputs_name input_checker s =
     extract_outputs g input_checker (remdups outputs_name) [] s"

definition delete_unused_nodes :: "'a graph \<Rightarrow> string option list \<Rightarrow> 'a graph" where
  "delete_unused_nodes g outputs_name =
     (case extract_sub_graph_nodes g outputs_name (\<lambda>n s. (True, s)) () of
        (related_nodes, _) \<Rightarrow>
          g\<lparr>graph_nodes := filter (\<lambda>n. n \<in> set related_nodes) (graph_nodes g)\<rparr>)"

text \<open>
  \<open>find_subgraph\<close> and its boundary predicate \<open>find_input_boundary\<close>, which adds to
  the sets \<open>enter_nodes\<close> and \<open>merge_nodes\<close>.
\<close>

record 'a boundary_nodes =
  enter_nodes :: "'a node list"
  merge_nodes :: "'a node list"

definition find_input_boundary ::
  "string option list \<Rightarrow> bool \<Rightarrow> 'a node \<Rightarrow> 'a boundary_nodes \<Rightarrow> bool \<times> 'a boundary_nodes" where
  "find_input_boundary input_ids merge_as_end node b =
     (if node_type node = ''Enter''
      then (False, b\<lparr>enter_nodes := set_add node (enter_nodes b)\<rparr>)
      else if merge_as_end = True \<and> node_type node = ''Merge''
      then (False, b\<lparr>merge_nodes := set_add node (merge_nodes b)\<rparr>)
      else if is_const node then (False, b)
      else if list_ex (\<lambda>o'. Some o' \<in> set input_ids) (node_output node) then (False, b)
      else (True, b))"

definition find_subgraph ::
  "string option list \<Rightarrow> string option list \<Rightarrow> 'a graph \<Rightarrow> bool
     \<Rightarrow> 'a node list \<times> 'a node list \<times> 'a node list" where
  "find_subgraph input_ids output_ids g merge_as_end =
     (case extract_sub_graph_nodes g output_ids (find_input_boundary input_ids merge_as_end)
             \<lparr>enter_nodes = [], merge_nodes = []\<rparr> of
        (nodes, b) \<Rightarrow> (nodes, enter_nodes b, merge_nodes b))"

text \<open>The loop ``connect Enter's output to Enter's input'' of both croppers.\<close>

fun rewire_enter_nodes :: "'a node list \<Rightarrow> string list \<Rightarrow> 'a graph \<Rightarrow> error + 'a graph" where
  "rewire_enter_nodes [] ops g = Inr g"
| "rewire_enter_nodes (enter_node # rest) ops g =
     bind_err (py_index (node_output (current g enter_node)) 0) (\<lambda>o0.
     bind_err (py_index (node_input (current g enter_node)) 0) (\<lambda>i0.
       rewire_enter_nodes rest ops (replace_all_inputs g ops (Some o0) i0)))"

definition crop_loop_body_sub_graph ::
  "'a graph \<Rightarrow> 'a loop_context \<Rightarrow> error + 'a graph \<times> graph_info" where
  "crop_loop_body_sub_graph g context =
     (let loop_props = loop_properties context;
          inputs = state_inputs loop_props @ scan_inputs loop_props;
          input_ids = map tvi_id inputs;
          outputs = state_outputs loop_props @ scan_outputs loop_props;
          output_ids = map tvi_id outputs
      in case find_subgraph input_ids output_ids g False of
           (ops, enter_nodes', _) \<Rightarrow>
             bind_err (rewire_enter_nodes enter_nodes' (map node_name ops) g) (\<lambda>g'.
               Inr (g', GraphInfo (map node_name ops) inputs outputs)))"

text \<open>\<open>_crop_loop_condition_sub_graph\<close>: the look-up of a merge node's loop variable
  (lines 294-295), the loop over the excluded merge nodes, then the rest.\<close>

definition loop_var_of_merge ::
  "'a loop_context \<Rightarrow> 'a graph \<Rightarrow> 'a node \<Rightarrow> error + loop_variable" where
  "loop_var_of_merge context g merge_node =
     bind_err (nodes_of_type ''Enter'' (node_inputs g (current g merge_node))) (\<lambda>enters.
     bind_err (py_index enters 0) (\<lambda>enter_node.
       od_get (all_variables (loop_properties context)) (node_name enter_node)))"

fun for_each_merge ::
  "'a node list \<Rightarrow> 'a loop_context \<Rightarrow> 'a graph \<Rightarrow> loop_variable list
     \<Rightarrow> error + 'a graph \<times> loop_variable list" where
  "for_each_merge [] context g dependent_vars' = Inr (g, dependent_vars')"
| "for_each_merge (merge_node # rest) context g dependent_vars' =
     bind_err (loop_var_of_merge context g merge_node) (\<lambda>loop_var.
     bind_err (py_index (node_output merge_node) 0) (\<lambda>m0.
       let non_switch_consumers =
             filter (\<lambda>n. node_type n \<noteq> ''Switch'') (find_output_consumers g (Some m0))
       in for_each_merge rest context
            (replace_all_inputs g (map node_name non_switch_consumers) (Some m0)
               (tvi_id (switch_true_identity_output loop_var)))
            (dependent_vars' @ [loop_var])))"

definition crop_loop_condition_sub_graph ::
  "'a graph \<Rightarrow> 'a loop_context \<Rightarrow> error + 'a graph \<times> graph_info" where
  "crop_loop_condition_sub_graph g context =
     bind_err (attr_of (loop_cond context)) (\<lambda>loop_cond_node.
     bind_err (py_index (node_input (current g loop_cond_node)) 0) (\<lambda>i0.
       let output_ids = [i0];
           outputs = map TensorValueInfo output_ids
       in case find_subgraph [] output_ids g True of
            (ops, enter_nodes', merge_nodes') \<Rightarrow>
              bind_err (rewire_enter_nodes enter_nodes' (map node_name ops) g) (\<lambda>g1.
              bind_err (for_each_merge merge_nodes' context g1 []) (\<lambda>(g2, dependent_vars').
              bind_err (py_index (node_output loop_cond_node) 0) (\<lambda>o0.
                Inr (replace_all_inputs g2 [node_name loop_cond_node] (Some o0)
                       (Some INVALID_INPUT_ID),
                     (GraphInfo (map node_name ops) [] outputs)
                       \<lparr>dependent_vars := Some dependent_vars'\<rparr>))))))"

section \<open>The loop rewriter: cell isolation and orchestration\<close>

fun cut_off_variables :: "loop_variable list \<Rightarrow> 'a graph \<Rightarrow> error + 'a graph" where
  "cut_off_variables [] g = Inr g"
| "cut_off_variables (val # rest) g =
     bind_err
       (if truthy (tvi_id (switch_true_identity_output val))
        then bind_err (attr_of (get_node_by_output g (tvi_id (switch_true_identity_output val))))
               (\<lambda>n. Inr (remove_node g (node_name n)))
        else Inr g) (\<lambda>g1.
       if is_tensor_array val
       then cut_off_variables rest
              (replace_all_inputs g1
                 (map node_name (filter is_tensor_array_write_op (get_nodes g1)))
                 (tvi_id (next_iteration_input val)) (Some INVALID_INPUT_ID))
       else cut_off_variables rest
              (replace_all_inputs g1
                 (map node_name (filter (\<lambda>n. node_type n = ''NextIteration'') (get_nodes g1)))
                 (tvi_id (next_iteration_input val)) (Some INVALID_INPUT_ID)))"

fun cut_off_scan_inputs :: "tensor_value_info list \<Rightarrow> 'a graph \<Rightarrow> error + 'a graph" where
  "cut_off_scan_inputs [] g = Inr g"
| "cut_off_scan_inputs (scan_input # rest) g =
     bind_err (attr_of (get_node_by_output g (tvi_id scan_input))) (\<lambda>n.
       cut_off_scan_inputs rest (remove_node g (node_name n)))"

definition cut_off_connection_for_cell :: "'a graph \<Rightarrow> 'a loop_context \<Rightarrow> error + 'a graph" where
  "cut_off_connection_for_cell g context =
     bind_err (cut_off_variables (od_values (all_variables (loop_properties context))) g) (\<lambda>g1.
       cut_off_scan_inputs (scan_inputs (loop_properties context)) g1)"

text \<open>
  \<open>run_internal\<close>. The rewrite strategy (\<open>need_rewrite\<close>, \<open>rewrite\<close>) belongs to the
  subclass and the matcher to its own module; the pass takes them as a record. In
  \<open>LoopRewriterBase\<close> itself \<open>need_rewrite\<close> is \<open>False\<close> and \<open>rewrite\<close> is \<open>FAIL\<close>.
\<close>

datatype rewriter_result = OK | SKIP | FAIL

record 'a rewriter =
  need_rewrite :: "'a graph \<Rightarrow> 'a loop_context \<Rightarrow> bool"
  rewrite :: "'a graph \<Rightarrow> 'a loop_context \<Rightarrow> rewriter_result \<times> 'a graph"
  match_ops :: "'a graph \<Rightarrow> 'a ta_match list"

definition LoopRewriterBase :: "('a graph \<Rightarrow> 'a ta_match list) \<Rightarrow> 'a rewriter" where
  "LoopRewriterBase matcher =
     \<lparr>need_rewrite = (\<lambda>g context. False), rewrite = (\<lambda>g context. (FAIL, g)),
      match_ops = matcher\<rparr>"

fun for_each_loopcond :: "'a rewriter \<Rightarrow> 'a node list \<Rightarrow> 'a graph \<Rightarrow> error + 'a graph" where
  "for_each_loopcond self [] g = Inr g"
| "for_each_loopcond self (op # rest) g =
     bind_err (check_in_read_only_mode (match_ops self) g (Context\<lparr>loop_cond := Some op\<rparr>))
       (\<lambda>context.
          if need_rewrite self g context then
            bind_err (cut_off_connection_for_cell g context) (\<lambda>g1.
            bind_err (crop_loop_body_sub_graph g1 context) (\<lambda>(g2, cell).
            bind_err (crop_loop_condition_sub_graph g2 (context\<lparr>cell_graph := Some cell\<rparr>))
              (\<lambda>(g3, cond).
                 case rewrite self g3 (context\<lparr>cell_graph := Some cell, cond_graph := Some cond\<rparr>) of
                   (result, g4) \<Rightarrow>
                     (case result of
                        OK \<Rightarrow> for_each_loopcond self rest g4
                      | SKIP \<Rightarrow> for_each_loopcond self rest g4
                      | FAIL \<Rightarrow> Inl (ValueError ''rewrite failed, so just fast fail it'')))))
          else for_each_loopcond self rest g)"

definition cleanup :: "'a graph \<Rightarrow> 'a graph" where
  "cleanup g =
     (if graph_outputs g \<noteq> [] then delete_unused_nodes g (map Some (graph_outputs g)) else g)"

definition run_internal :: "'a rewriter \<Rightarrow> 'a graph \<Rightarrow> error + 'a graph" where
  "run_internal self g =
     bind_err (for_each_loopcond self (filter is_loopcond_op (get_nodes g)) g) (\<lambda>g'.
       Inr (cleanup g'))"


section \<open>A scenario: three duplicated nodes\<close>

definition mk_node :: "string \<Rightarrow> string \<Rightarrow> string option list \<Rightarrow> string list \<Rightarrow> unit node" where
  "mk_node nm ty ins outs =
     \<lparr>node_name = nm, node_type = ty, node_input = ins, node_output = outs, node_attr = ()\<rparr>"

definition abs_scenario :: "unit graph" where
  "abs_scenario =
     \<lparr>graph_nodes =
        [mk_node ''x'' ''Placeholder'' [] [''t0''],
         mk_node ''a'' ''Abs'' [Some ''t0''] [''a:0''],
         mk_node ''b'' ''Abs'' [Some ''t0''] [''b:0''],
         mk_node ''c'' ''Abs'' [Some ''t0''] [''c:0''],
         mk_node ''u1'' ''Neg'' [Some ''a:0''] [''u1:0''],
         mk_node ''u2'' ''Exp'' [Some ''b:0''] [''u2:0''],
         mk_node ''u3'' ''Sqrt'' [Some ''b:0''] [''u3:0'']],
      graph_outputs = [''u1:0'', ''u2:0'', ''u3:0'']\<rparr>"

definition abs_scenario_merged :: "unit graph" where
  "abs_scenario_merged =
     \<lparr>graph_nodes =
        [mk_node ''x'' ''Placeholder'' [] [''t0''],
         mk_node ''a'' ''Abs'' [Some ''t0''] [''a:0''],
         mk_node ''u1'' ''Neg'' [Some ''a:0''] [''u1:0''],
         mk_node ''u2'' ''Exp'' [Some ''a:0''] [''u2:0''],
         mk_node ''u3'' ''Sqrt'' [Some ''a:0''] [''u3:0'']],
      graph_outputs = [''u1:0'', ''u2:0'', ''u3:0'']\<rparr>"

lemma abs_scenario_optimized:
  "optimize_at_current_graph_level (init_optimizer, abs_scenario) =
     Inr (\<lparr>graph_can_be_optimized = False\<rparr>, abs_scenario_merged)"
  by code_simp

lemma abs_scenario_changed: "abs_scenario_merged \<noteq> abs_scenario"
  by (simp add: abs_scenario_merged_def abs_scenario_def)

section \<open>Claims about the merge optimizer\<close>

text \<open>
  C10. The rerun flag belongs to the optimizer instance, not to the call. A call of the
  per-graph loop always returns (it never raises) and leaves the flag false; any later
  call on the same instance, on any graph \<open>g2\<close>, runs no merge round and returns
  \<open>g2\<close> as it is, whether or not \<open>g2\<close> holds mergeable duplicates.
\<close>

theorem rerun_flag_is_instance_state:
  "\<exists>self' g'. optimize_at_current_graph_level (self, g) = Inr (self', g')
      \<and> \<not> graph_can_be_optimized self'
      \<and> optimize_at_current_graph_level (self', g2) = Inr (self', g2)"
proof -
  obtain self' g' where r: "optimize_at_current_graph_level (self, g) = Inr (self', g')"
    and f: "\<not> graph_can_be_optimized self'"
    using optimize_total_flag [of self g] by blast
  from f have "optimize_at_current_graph_level (self', g2) = Inr (self', g2)"
    by (rule optimize_idle)
  with r f show ?thesis by blast
qed

text \<open>
  At the scenario graph: a fresh instance merges the three \<open>Abs\<close> nodes, the instance it
  leaves behind returns the very same graph untouched.
\<close>

theorem rerun_flag_is_instance_state_witness:
  "(\<exists>self' g'. optimize_at_current_graph_level (init_optimizer, abs_scenario) = Inr (self', g')
      \<and> \<not> graph_can_be_optimized self'
      \<and> optimize_at_current_graph_level (self', abs_scenario) = Inr (self', abs_scenario))
   \<and> optimize_at_current_graph_level (init_optimizer, abs_scenario)
        = Inr (\<lparr>graph_can_be_optimized = False\<rparr>, abs_scenario_merged)
   \<and> abs_scenario_merged \<noteq> abs_scenario"
  using rerun_flag_is_instance_state [of init_optimizer abs_scenario abs_scenario]
    abs_scenario_optimized abs_scenario_changed
  by blast

text \<open>
  C7. The optimizer reaches a fixed point. A round started with the flag cleared always
  returns; it sets the flag exactly when it has removed a node and otherwise leaves the
  graph as it was, and the loop goes on with the round's result while the flag is set.
  The graph a fresh instance returns is stable: one more full round merges nothing, and
  a second run, by a fresh instance or by the same one, returns it unchanged.
\<close>

theorem merge_optimizer_fixed_point:
  "(\<exists>s1 g1. merge_duplicated_nodes (self\<lparr>graph_can_be_optimized := False\<rparr>, g) = Inr (s1, g1)
      \<and> (if graph_can_be_optimized s1 then length (graph_nodes g1) < length (graph_nodes g)
          else g1 = g)
      \<and> (graph_can_be_optimized self \<longrightarrow>
           optimize_at_current_graph_level (self, g) = optimize_at_current_graph_level (s1, g1)))
   \<and> (\<exists>self' g'. optimize_at_current_graph_level (init_optimizer, g) = Inr (self', g')
      \<and> merge_duplicated_nodes (self', g') = Inr (self', g')
      \<and> optimize_at_current_graph_level (init_optimizer, g') = Inr (self', g')
      \<and> optimize_at_current_graph_level (self', g') = Inr (self', g'))"
proof
  let ?s0 = "self\<lparr>graph_can_be_optimized := False\<rparr>"
  obtain s1 g1 where m: "merge_duplicated_nodes (?s0, g) = Inr (s1, g1)"
    using merge_duplicated_nodes_total [of "(?s0, g)"] by auto
  have "round_progress g (s1, g1)"
    using m by (rule merge_duplicated_nodes_progress) simp
  then have "if graph_can_be_optimized s1 then length (graph_nodes g1) < length (graph_nodes g)
          else g1 = g"
    by (auto simp: round_progress_def split: if_splits)
  moreover have "graph_can_be_optimized self \<longrightarrow>
       optimize_at_current_graph_level (self, g) = optimize_at_current_graph_level (s1, g1)"
    using m by simp
  ultimately show "\<exists>s1 g1. merge_duplicated_nodes (?s0, g) = Inr (s1, g1)
      \<and> (if graph_can_be_optimized s1 then length (graph_nodes g1) < length (graph_nodes g)
          else g1 = g)
      \<and> (graph_can_be_optimized self \<longrightarrow>
           optimize_at_current_graph_level (self, g) = optimize_at_current_graph_level (s1, g1))"
    using m by blast
next
  obtain self' g' where r: "optimize_at_current_graph_level (init_optimizer, g) = Inr (self', g')"
    and f: "\<not> graph_can_be_optimized self'"
    and fx: "merge_duplicated_nodes (self', g') = Inr (self', g')"
    using optimize_total_flag [of init_optimizer g] by (auto simp: init_optimizer_def)
  have same: "optimize_at_current_graph_level (self', g') = Inr (self', g')"
    using f by (rule optimize_idle)
  have "init_optimizer\<lparr>graph_can_be_optimized := False\<rparr> = self'"
    using f by (intro optimizer_eq) simp
  then have "optimize_at_current_graph_level (init_optimizer, g') = Inr (self', g')"
    using fx same by (simp add: init_optimizer_def)
  with r fx same show "\<exists>self' g'. optimize_at_current_graph_level (init_optimizer, g) = Inr (self', g')
      \<and> merge_duplicated_nodes (self', g') = Inr (self', g')
      \<and> optimize_at_current_graph_level (init_optimizer, g') = Inr (self', g')
      \<and> optimize_at_current_graph_level (self', g') = Inr (self', g')"
    by blast
qed

lemma abs_scenario_first_round:
  "merge_duplicated_nodes (\<lparr>graph_can_be_optimized = False\<rparr>, abs_scenario)
     = Inr (\<lparr>graph_can_be_optimized = True\<rparr>, abs_scenario_merged)"
  by code_simp

theorem merge_optimizer_fixed_point_witness:
  "merge_duplicated_nodes (\<lparr>graph_can_be_optimized = False\<rparr>, abs_scenario)
     = Inr (\<lparr>graph_can_be_optimized = True\<rparr>, abs_scenario_merged)
   \<and> length (graph_nodes abs_scenario_merged) < length (graph_nodes abs_scenario)
   \<and> optimize_at_current_graph_level (init_optimizer, abs_scenario)
        = optimize_at_current_graph_level (\<lparr>graph_can_be_optimized = True\<rparr>, abs_scenario_merged)
   \<and> optimize_at_current_graph_level (init_optimizer, abs_scenario)
        = Inr (\<lparr>graph_can_be_optimized = False\<rparr>, abs_scenario_merged)
   \<and> merge_duplicated_nodes (\<lparr>graph_can_be_optimized = False\<rparr>, abs_scenario_merged)
        = Inr (\<lparr>graph_can_be_optimized = False\<rparr>, abs_scenario_merged)
   \<and> optimize_at_current_graph_level (init_optimizer, abs_scenario_merged)
        = Inr (\<lparr>graph_can_be_optimized = False\<rparr>, abs_scenario_merged)
   \<and> optimize_at_current_graph_level (\<lparr>graph_can_be_optimized = False\<rparr>, abs_scenario_merged)
        = Inr (\<lparr>graph_can_be_optimized = False\<rparr>, abs_scenario_merged)"
  using merge_optimizer_fixed_point [of init_optimizer abs_scenario]
    abs_scenario_optimized abs_scenario_first_round
  by (auto simp: init_optimizer_def)

text \<open>
  The invariant behind C5: the declared outputs stay, node names stay distinct, and every
  node of the round's starting graph that produces a declared output is still there,
  up to its inputs.
\<close>

definition keeps_protected :: "'a graph \<Rightarrow> optimizer \<times> 'a graph \<Rightarrow> bool" where
  "keeps_protected g0 sg =
     (graph_outputs (snd sg) = graph_outputs g0 \<and>
      distinct (map node_name (graph_nodes (snd sg))) \<and>
      (\<forall>n\<in>set (graph_nodes g0). set (node_output n) \<inter> set (graph_outputs g0) \<noteq> {} \<longrightarrow>
         node_frame n \<in> set (map node_frame (graph_nodes (snd sg)))))"

lemma distinct_names_eq:
  "distinct (map node_name ns) \<Longrightarrow> a \<in> set ns \<Longrightarrow> b \<in> set ns \<Longrightarrow>
   node_name a = node_name b \<Longrightarrow> a = b"
  by (auto simp: distinct_map dest: inj_onD)

lemma fst_node_frame [simp]: "fst (node_frame n) = node_name n"
  by (simp add: node_frame_def)

lemma remove_node_frames:
  "set (map node_frame (graph_nodes (remove_node g nm)))
     = {f \<in> set (map node_frame (graph_nodes g)). fst f \<noteq> nm}"
  by (auto simp: remove_node_def)

lemma remove_node_distinct:
  "distinct (map node_name (graph_nodes g)) \<Longrightarrow>
   distinct (map node_name (graph_nodes (remove_node g nm)))"
  by (simp add: remove_node_def distinct_map_filter)

lemma delete_or_keep_keeps_protected:
  assumes dist: "distinct (map node_name (graph_nodes g0))"
    and d: "d \<in> set (graph_nodes g0)"
    and inv: "keeps_protected g0 sg"
  shows "keeps_protected g0 (delete_or_keep r d sg)"
proof (cases sg)
  case (Pair self g)
  show ?thesis
  proof (cases "set (node_output d) \<inter> set (graph_outputs g) \<noteq> {}")
    case True
    then show ?thesis using inv Pair by (simp add: delete_or_keep_def)
  next
    case False
    let ?g' = "remove_node (rewire_to_retained d r g) (node_name d)"
    have outs: "graph_outputs g = graph_outputs g0"
      using inv Pair by (simp add: keeps_protected_def)
    have res: "delete_or_keep r d sg = (self\<lparr>graph_can_be_optimized := True\<rparr>, ?g')"
      using False Pair by (simp add: delete_or_keep_def)
    have "distinct (map node_name (graph_nodes (rewire_to_retained d r g)))"
      using inv Pair by (simp add: keeps_protected_def)
    then have d1: "distinct (map node_name (graph_nodes ?g'))" by (rule remove_node_distinct)
    have fr: "set (map node_frame (graph_nodes ?g'))
        = {f \<in> set (map node_frame (graph_nodes g)). fst f \<noteq> node_name d}"
      by (simp only: remove_node_frames rewire_to_retained_frames)
    have "node_frame n \<in> set (map node_frame (graph_nodes ?g'))"
      if n: "n \<in> set (graph_nodes g0)"
        and p: "set (node_output n) \<inter> set (graph_outputs g0) \<noteq> {}" for n
    proof -
      have "node_frame n \<in> set (map node_frame (graph_nodes g))"
        using inv Pair n p by (simp add: keeps_protected_def)
      moreover have "node_name n \<noteq> node_name d"
      proof
        assume "node_name n = node_name d"
        with dist n d have "n = d" by (rule distinct_names_eq)
        with p False outs show False by simp
      qed
      ultimately show ?thesis unfolding fr by simp
    qed
    with d1 outs show ?thesis unfolding res by (simp add: keeps_protected_def)
  qed
qed

lemma merge_duplicated_nodes_keeps_protected:
  assumes dist: "distinct (map node_name (graph_nodes g))"
    and m: "merge_duplicated_nodes (self, g) = Inr sg'"
  shows "keeps_protected g sg'"
proof (rule merge_duplicated_nodes_inv [where Inv = "keeps_protected g" and sg = "(self, g)"])
  show "keeps_protected g (self, g)" using dist by (simp add: keeps_protected_def)
  show "merge_duplicated_nodes (self, g) = Inr sg'" by fact
  show "\<And>r d sg'. d \<in> set (graph_nodes (snd (self, g))) \<Longrightarrow> keeps_protected g sg' \<Longrightarrow>
          keeps_protected g (delete_or_keep r d sg')"
    using dist by (simp add: delete_or_keep_keeps_protected)
qed

lemma optimize_keeps_protected:
  "distinct (map node_name (graph_nodes g)) \<Longrightarrow> n \<in> set (graph_nodes g) \<Longrightarrow>
   set (node_output n) \<inter> set (graph_outputs g) \<noteq> {} \<Longrightarrow>
   optimize_at_current_graph_level (self, g) = Inr (self', g') \<Longrightarrow>
   node_frame n \<in> set (map node_frame (graph_nodes g'))"
proof (induction "(self, g)" arbitrary: self g n rule: optimize_at_current_graph_level.induct)
  case (1 self graph)
  show ?case
  proof (cases "graph_can_be_optimized self")
    case False
    with "1.prems" show ?thesis by simp
  next
    case True
    let ?s0 = "self\<lparr>graph_can_be_optimized := False\<rparr>"
    obtain s1 g1 where m: "merge_duplicated_nodes (?s0, graph) = Inr (s1, g1)"
      using merge_duplicated_nodes_total [of "(?s0, graph)"] by auto
    have r: "optimize_at_current_graph_level (s1, g1) = Inr (self', g')"
      using True m "1.prems"(4) by simp
    have k: "keeps_protected graph (s1, g1)"
      using "1.prems"(1) m by (rule merge_duplicated_nodes_keeps_protected)
    then have "node_frame n \<in> set (map node_frame (graph_nodes g1))"
      using "1.prems"(2,3) by (simp add: keeps_protected_def)
    then obtain n1 where n1: "n1 \<in> set (graph_nodes g1)" and f: "node_frame n1 = node_frame n"
      by auto
    have "set (node_output n1) \<inter> set (graph_outputs g1) \<noteq> {}"
      using f k "1.prems"(3) by (simp add: node_frame_def keeps_protected_def)
    moreover have "distinct (map node_name (graph_nodes g1))"
      using k by (simp add: keeps_protected_def)
    ultimately have "node_frame n1 \<in> set (map node_frame (graph_nodes g'))"
      using "1.hyps" [OF True m _ n1 _ r] by blast
    with f show ?thesis by simp
  qed
qed

text \<open>
  C5. In a graph whose node names are distinct, a node any of whose outputs is a declared
  graph output is never deleted by the optimizer, whatever duplicates it has: the run
  returns, and the returned graph still holds a node of that name with the same operator
  type, outputs and attributes (its inputs may have been rewired).
\<close>

theorem graph_output_node_never_deleted:
  assumes "distinct (map node_name (graph_nodes g))"
    and "n \<in> set (graph_nodes g)"
    and "set (node_output n) \<inter> set (graph_outputs g) \<noteq> {}"
  shows "\<exists>self' g'. optimize_at_current_graph_level (self, g) = Inr (self', g') \<and>
           (\<exists>n'\<in>set (graph_nodes g'). node_name n' = node_name n \<and> node_type n' = node_type n \<and>
              node_output n' = node_output n \<and> node_attr n' = node_attr n)"
proof -
  obtain self' g' where r: "optimize_at_current_graph_level (self, g) = Inr (self', g')"
    using optimize_total_flag [of self g] by blast
  with assms have "node_frame n \<in> set (map node_frame (graph_nodes g'))"
    by (rule optimize_keeps_protected)
  then obtain n' where "n' \<in> set (graph_nodes g')" "node_frame n' = node_frame n" by auto
  with r show ?thesis by (auto simp: node_frame_def)
qed

text \<open>
  Three identical \<open>Abs\<close> nodes, the second a declared output: the third is merged into
  the first, the second stays.
\<close>

definition dup_output_scenario :: "unit graph" where
  "dup_output_scenario =
     \<lparr>graph_nodes =
        [mk_node ''x'' ''Placeholder'' [] [''t0''],
         mk_node ''a'' ''Abs'' [Some ''t0''] [''a:0''],
         mk_node ''b'' ''Abs'' [Some ''t0''] [''b:0''],
         mk_node ''c'' ''Abs'' [Some ''t0''] [''c:0'']],
      graph_outputs = [''b:0'']\<rparr>"

definition dup_output_merged :: "unit graph" where
  "dup_output_merged =
     \<lparr>graph_nodes =
        [mk_node ''x'' ''Placeholder'' [] [''t0''],
         mk_node ''a'' ''Abs'' [Some ''t0''] [''a:0''],
         mk_node ''b'' ''Abs'' [Some ''t0''] [''b:0'']],
      graph_outputs = [''b:0'']\<rparr>"

lemma dup_output_scenario_optimized:
  "optimize_at_current_graph_level (init_optimizer, dup_output_scenario)
     = Inr (\<lparr>graph_can_be_optimized = False\<rparr>, dup_output_merged)"
  by code_simp

lemma dup_output_scenario_wf:
  "distinct (map node_name (graph_nodes dup_output_scenario))"
  "mk_node ''b'' ''Abs'' [Some ''t0''] [''b:0''] \<in> set (graph_nodes dup_output_scenario)"
  "set (node_output (mk_node ''b'' ''Abs'' [Some ''t0''] [''b:0'']))
     \<inter> set (graph_outputs dup_output_scenario) \<noteq> {}"
  by (simp_all add: dup_output_scenario_def mk_node_def)

theorem graph_output_node_never_deleted_witness:
  "distinct (map node_name (graph_nodes dup_output_scenario))
   \<and> mk_node ''b'' ''Abs'' [Some ''t0''] [''b:0''] \<in> set (graph_nodes dup_output_scenario)
   \<and> mk_node ''a'' ''Abs'' [Some ''t0''] [''a:0''] \<in> set (graph_nodes dup_output_scenario)
   \<and> set (node_output (mk_node ''b'' ''Abs'' [Some ''t0''] [''b:0'']))
        \<inter> set (graph_outputs dup_output_scenario) \<noteq> {}
   \<and> optimize_at_current_graph_level (init_optimizer, dup_output_scenario)
        = Inr (\<lparr>graph_can_be_optimized = False\<rparr>, dup_output_merged)
   \<and> (\<exists>n'\<in>set (graph_nodes dup_output_merged). node_name n' = ''b'' \<and> node_type n' = ''Abs'' \<and>
              node_output n' = [''b:0''] \<and> node_attr n' = ())"
  using graph_output_node_never_deleted [OF dup_output_scenario_wf, of init_optimizer]
    dup_output_scenario_wf dup_output_scenario_optimized
  by (simp add: mk_node_def dup_output_scenario_def)

text \<open>The head of the stable descending sort.\<close>

lemma sort_by_len_head:
  assumes "sort_by_len_of_node_output ns = r # rest"
  shows "r \<in> set ns"
    and "\<forall>n\<in>set ns. len_of_node_output n \<le> len_of_node_output r"
    and "r = hd (filter (\<lambda>n. len_of_node_output n = len_of_node_output r) ns)"
proof -
  let ?f = "\<lambda>n. - int (len_of_node_output n)"
  have s: "sort_key ?f ns = r # rest"
    using assms by (simp add: sort_by_len_of_node_output_def)
  have "set (sort_key ?f ns) = set ns" by simp
  with s have mem: "set ns = insert r (set rest)" by simp
  then show "r \<in> set ns" by simp
  have "sorted (map ?f (sort_key ?f ns))" by (rule sorted_sort_key)
  with s have "\<forall>x\<in>set rest. ?f r \<le> ?f x" by simp
  with mem show "\<forall>n\<in>set ns. len_of_node_output n \<le> len_of_node_output r" by auto
  have "filter (\<lambda>y. ?f y = ?f r) (sort_key ?f ns) = filter (\<lambda>y. ?f y = ?f r) ns"
    by (rule sort_key_stable)
  with s have "filter (\<lambda>y. ?f y = ?f r) ns = r # filter (\<lambda>y. ?f y = ?f r) rest" by simp
  then show "r = hd (filter (\<lambda>n. len_of_node_output n = len_of_node_output r) ns)" by simp
qed

text \<open>
  C1, as the code has it. Within an equality class the node retained is the head of the
  stable descending sort by \<open>len(node.output)\<close>: a member of the class with the greatest
  number of declared outputs, and the earliest such member in graph order; how many
  consumers read those outputs plays no part. When the output names of the members of the
  class are distinct, the other members none of whose outputs is a declared graph output
  are merged into it, and only they: the nodes of their names are removed, every input
  that read the \<open>j\<close>-th output of one of them reads the \<open>j\<close>-th output of the retained
  node, every other input is unchanged, and the rerun flag is raised when there was such
  a member. In the scenario of three attribute-free \<open>Abs\<close> nodes on the same input, each
  with one output, exactly one \<open>Abs\<close> node remains after optimization, the first in graph
  order, and all three original consumers read its output.
\<close>

theorem retained_node_has_most_declared_outputs:
  "(nodes_to_process \<noteq> [] \<longrightarrow>
      (\<exists>node_to_retain rest.
          sort_by_len_of_node_output nodes_to_process = node_to_retain # rest
        \<and> merge_nodes_that_are_duplicated nodes_to_process sg
            = Inr (fold (delete_or_keep node_to_retain) rest sg)
        \<and> node_to_retain \<in> set nodes_to_process
        \<and> (\<forall>n\<in>set nodes_to_process. len_of_node_output n \<le> len_of_node_output node_to_retain)
        \<and> node_to_retain
            = hd (filter (\<lambda>n. len_of_node_output n = len_of_node_output node_to_retain)
                    nodes_to_process)
        \<and> (distinct (concat (map node_output (node_to_retain # rest))) \<longrightarrow>
              merge_nodes_that_are_duplicated nodes_to_process sg
                = Inr ((fst sg)\<lparr>graph_can_be_optimized :=
                          graph_can_be_optimized (fst sg) \<or> unprotected (snd sg) rest \<noteq> []\<rparr>,
                       merged_into node_to_retain (unprotected (snd sg) rest) (snd sg))
            \<and> (\<forall>d\<in>set (unprotected (snd sg) rest). \<forall>j<length (node_output d).
                  merged_input node_to_retain (unprotected (snd sg) rest) (Some (node_output d ! j))
                    = Some (node_output node_to_retain ! j))
            \<and> (\<forall>x. x \<notin> Some ` (\<Union>d\<in>set (unprotected (snd sg) rest). set (node_output d)) \<longrightarrow>
                  merged_input node_to_retain (unprotected (snd sg) rest) x = x))))
   \<and> optimize_at_current_graph_level (init_optimizer, abs_scenario)
        = Inr (\<lparr>graph_can_be_optimized = False\<rparr>, abs_scenario_merged)
   \<and> map node_name (filter (\<lambda>n. node_type n = ''Abs'') (graph_nodes abs_scenario_merged)) = [''a'']
   \<and> map node_name (find_output_consumers abs_scenario_merged (Some ''a:0''))
        = [''u1'', ''u2'', ''u3'']"
proof (intro conjI impI)
  assume ne: "nodes_to_process \<noteq> []"
  then have "length (sort_by_len_of_node_output nodes_to_process) \<noteq> 0"
    by (simp add: sort_by_len_of_node_output_def)
  then obtain r rest where s: "sort_by_len_of_node_output nodes_to_process = r # rest"
    by (cases "sort_by_len_of_node_output nodes_to_process") auto
  have m: "merge_nodes_that_are_duplicated nodes_to_process sg = Inr (fold (delete_or_keep r) rest sg)"
    using s by (simp add: merge_nodes_that_are_duplicated_def)
  note h = sort_by_len_head [OF s]
  let ?U = "unprotected (snd sg) rest"
  have closed: "merge_nodes_that_are_duplicated nodes_to_process sg
                = Inr ((fst sg)\<lparr>graph_can_be_optimized :=
                          graph_can_be_optimized (fst sg) \<or> ?U \<noteq> []\<rparr>,
                       merged_into r ?U (snd sg))
            \<and> (\<forall>d\<in>set ?U. \<forall>j<length (node_output d).
                  merged_input r ?U (Some (node_output d ! j)) = Some (node_output r ! j))
            \<and> (\<forall>x. x \<notin> Some ` (\<Union>d\<in>set ?U. set (node_output d)) \<longrightarrow> merged_input r ?U x = x)"
    if dist: "distinct (concat (map node_output (r # rest)))"
  proof (intro conjI ballI allI impI)
    from dist have dis: "\<forall>d\<in>set rest. set (node_output d) \<inter> set (node_output r) = {}"
      by auto
    have "fold (delete_or_keep r) rest (fst sg, snd sg)
          = ((fst sg)\<lparr>graph_can_be_optimized := graph_can_be_optimized (fst sg) \<or> ?U \<noteq> []\<rparr>,
             merged_into r ?U (snd sg))"
      using dis by (rule fold_delete_or_keep_closed)
    with m show "merge_nodes_that_are_duplicated nodes_to_process sg
                = Inr ((fst sg)\<lparr>graph_can_be_optimized :=
                          graph_can_be_optimized (fst sg) \<or> ?U \<noteq> []\<rparr>,
                       merged_into r ?U (snd sg))"
      by simp
  next
    fix d j
    assume d: "d \<in> set ?U" and j: "j < length (node_output d)"
    from dist have "distinct (concat (map node_output rest))" by simp
    then have du: "distinct (concat (map node_output ?U))"
      unfolding unprotected_def by (rule distinct_concat_filter)
    have "set (r # rest) = set nodes_to_process"
      using s set_sort_by_len [of nodes_to_process] by simp
    with h(2) have "\<forall>d\<in>set rest. length (node_output d) \<le> length (node_output r)"
      by (auto simp: len_of_node_output_def)
    then have len: "\<forall>d\<in>set ?U. length (node_output d) \<le> length (node_output r)"
      by (simp add: unprotected_def)
    from du len d j
    show "merged_input r ?U (Some (node_output d ! j)) = Some (node_output r ! j)"
      by (rule merged_input_nth)
  next
    fix x
    assume "x \<notin> Some ` (\<Union>d\<in>set ?U. set (node_output d))"
    then show "merged_input r ?U x = x" by (rule merged_input_other)
  qed
  with s m h
  show "\<exists>node_to_retain rest.
          sort_by_len_of_node_output nodes_to_process = node_to_retain # rest
        \<and> merge_nodes_that_are_duplicated nodes_to_process sg
            = Inr (fold (delete_or_keep node_to_retain) rest sg)
        \<and> node_to_retain \<in> set nodes_to_process
        \<and> (\<forall>n\<in>set nodes_to_process. len_of_node_output n \<le> len_of_node_output node_to_retain)
        \<and> node_to_retain
            = hd (filter (\<lambda>n. len_of_node_output n = len_of_node_output node_to_retain)
                    nodes_to_process)
        \<and> (distinct (concat (map node_output (node_to_retain # rest))) \<longrightarrow>
              merge_nodes_that_are_duplicated nodes_to_process sg
                = Inr ((fst sg)\<lparr>graph_can_be_optimized :=
                          graph_can_be_optimized (fst sg) \<or> unprotected (snd sg) rest \<noteq> []\<rparr>,
                       merged_into node_to_retain (unprotected (snd sg) rest) (snd sg))
            \<and> (\<forall>d\<in>set (unprotected (snd sg) rest). \<forall>j<length (node_output d).
                  merged_input node_to_retain (unprotected (snd sg) rest) (Some (node_output d ! j))
                    = Some (node_output node_to_retain ! j))
            \<and> (\<forall>x. x \<notin> Some ` (\<Union>d\<in>set (unprotected (snd sg) rest). set (node_output d)) \<longrightarrow>
                  merged_input node_to_retain (unprotected (snd sg) rest) x = x))"
    by blast
next
  show "optimize_at_current_graph_level (init_optimizer, abs_scenario)
        = Inr (\<lparr>graph_can_be_optimized = False\<rparr>, abs_scenario_merged)"
    by (rule abs_scenario_optimized)
next
  show "map node_name (filter (\<lambda>n. node_type n = ''Abs'') (graph_nodes abs_scenario_merged)) = [''a'']"
    by (simp add: abs_scenario_merged_def mk_node_def)
next
  show "map node_name (find_output_consumers abs_scenario_merged (Some ''a:0''))
        = [''u1'', ''u2'', ''u3'']"
    by (simp add: abs_scenario_merged_def mk_node_def find_output_consumers_def get_nodes_def)
qed

text \<open>
  The equality class of the scenario, merged in the scenario and in the graph where the
  second member is a declared output.
\<close>

definition abs_class :: "unit node list" where
  "abs_class =
     [mk_node ''a'' ''Abs'' [Some ''t0''] [''a:0''],
      mk_node ''b'' ''Abs'' [Some ''t0''] [''b:0''],
      mk_node ''c'' ''Abs'' [Some ''t0''] [''c:0'']]"

lemma abs_class_sorted: "sort_by_len_of_node_output abs_class = abs_class"
  by (simp add: sort_by_len_of_node_output_def abs_class_def mk_node_def len_of_node_output_def)

lemma abs_class_merged:
  "distinct (concat (map node_output
      (mk_node ''a'' ''Abs'' [Some ''t0''] [''a:0'']
       # [mk_node ''b'' ''Abs'' [Some ''t0''] [''b:0''], mk_node ''c'' ''Abs'' [Some ''t0''] [''c:0'']])))"
  "unprotected abs_scenario
      [mk_node ''b'' ''Abs'' [Some ''t0''] [''b:0''], mk_node ''c'' ''Abs'' [Some ''t0''] [''c:0'']]
     = [mk_node ''b'' ''Abs'' [Some ''t0''] [''b:0''], mk_node ''c'' ''Abs'' [Some ''t0''] [''c:0'']]"
  "merge_nodes_that_are_duplicated abs_class (init_optimizer, abs_scenario)
     = Inr (\<lparr>graph_can_be_optimized = True\<rparr>, abs_scenario_merged)"
  "merged_into (mk_node ''a'' ''Abs'' [Some ''t0''] [''a:0''])
      [mk_node ''b'' ''Abs'' [Some ''t0''] [''b:0''], mk_node ''c'' ''Abs'' [Some ''t0''] [''c:0'']]
      abs_scenario
     = abs_scenario_merged"
  "merged_input (mk_node ''a'' ''Abs'' [Some ''t0''] [''a:0''])
      [mk_node ''b'' ''Abs'' [Some ''t0''] [''b:0''], mk_node ''c'' ''Abs'' [Some ''t0''] [''c:0'']]
      (Some ''b:0'')
     = Some ''a:0''"
  "merged_input (mk_node ''a'' ''Abs'' [Some ''t0''] [''a:0''])
      [mk_node ''b'' ''Abs'' [Some ''t0''] [''b:0''], mk_node ''c'' ''Abs'' [Some ''t0''] [''c:0'']]
      (Some ''t0'')
     = Some ''t0''"
  "unprotected dup_output_scenario
      [mk_node ''b'' ''Abs'' [Some ''t0''] [''b:0''], mk_node ''c'' ''Abs'' [Some ''t0''] [''c:0'']]
     = [mk_node ''c'' ''Abs'' [Some ''t0''] [''c:0'']]"
  "merge_nodes_that_are_duplicated abs_class (init_optimizer, dup_output_scenario)
     = Inr (\<lparr>graph_can_be_optimized = True\<rparr>, dup_output_merged)"
  "merged_into (mk_node ''a'' ''Abs'' [Some ''t0''] [''a:0''])
      [mk_node ''c'' ''Abs'' [Some ''t0''] [''c:0'']] dup_output_scenario
     = dup_output_merged"
  by code_simp+

theorem retained_node_has_most_declared_outputs_witness:
  "abs_class \<noteq> []
   \<and> sort_by_len_of_node_output abs_class
       = mk_node ''a'' ''Abs'' [Some ''t0''] [''a:0'']
         # [mk_node ''b'' ''Abs'' [Some ''t0''] [''b:0''], mk_node ''c'' ''Abs'' [Some ''t0''] [''c:0'']]
   \<and> merge_nodes_that_are_duplicated abs_class (init_optimizer, abs_scenario)
       = Inr (fold (delete_or_keep (mk_node ''a'' ''Abs'' [Some ''t0''] [''a:0'']))
               [mk_node ''b'' ''Abs'' [Some ''t0''] [''b:0''], mk_node ''c'' ''Abs'' [Some ''t0''] [''c:0'']]
               (init_optimizer, abs_scenario))
   \<and> len_of_node_output (mk_node ''b'' ''Abs'' [Some ''t0''] [''b:0''])
       \<le> len_of_node_output (mk_node ''a'' ''Abs'' [Some ''t0''] [''a:0''])
   \<and> optimize_at_current_graph_level (init_optimizer, abs_scenario)
        = Inr (\<lparr>graph_can_be_optimized = False\<rparr>, abs_scenario_merged)
   \<and> distinct (concat (map node_output
        (mk_node ''a'' ''Abs'' [Some ''t0''] [''a:0'']
         # [mk_node ''b'' ''Abs'' [Some ''t0''] [''b:0''], mk_node ''c'' ''Abs'' [Some ''t0''] [''c:0'']])))
   \<and> unprotected abs_scenario
        [mk_node ''b'' ''Abs'' [Some ''t0''] [''b:0''], mk_node ''c'' ''Abs'' [Some ''t0''] [''c:0'']]
       = [mk_node ''b'' ''Abs'' [Some ''t0''] [''b:0''], mk_node ''c'' ''Abs'' [Some ''t0''] [''c:0'']]
   \<and> merge_nodes_that_are_duplicated abs_class (init_optimizer, abs_scenario)
       = Inr (\<lparr>graph_can_be_optimized = True\<rparr>, abs_scenario_merged)
   \<and> merged_into (mk_node ''a'' ''Abs'' [Some ''t0''] [''a:0''])
        [mk_node ''b'' ''Abs'' [Some ''t0''] [''b:0''], mk_node ''c'' ''Abs'' [Some ''t0''] [''c:0'']]
        abs_scenario
       = abs_scenario_merged
   \<and> merged_input (mk_node ''a'' ''Abs'' [Some ''t0''] [''a:0''])
        [mk_node ''b'' ''Abs'' [Some ''t0''] [''b:0''], mk_node ''c'' ''Abs'' [Some ''t0''] [''c:0'']]
        (Some ''b:0'')
       = Some ''a:0''
   \<and> merged_input (mk_node ''a'' ''Abs'' [Some ''t0''] [''a:0''])
        [mk_node ''b'' ''Abs'' [Some ''t0''] [''b:0''], mk_node ''c'' ''Abs'' [Some ''t0''] [''c:0'']]
        (Some ''t0'')
       = Some ''t0''
   \<and> unprotected dup_output_scenario
        [mk_node ''b'' ''Abs'' [Some ''t0''] [''b:0''], mk_node ''c'' ''Abs'' [Some ''t0''] [''c:0'']]
       = [mk_node ''c'' ''Abs'' [Some ''t0''] [''c:0'']]
   \<and> merge_nodes_that_are_duplicated abs_class (init_optimizer, dup_output_scenario)
       = Inr (\<lparr>graph_can_be_optimized = True\<rparr>, dup_output_merged)
   \<and> merged_into (mk_node ''a'' ''Abs'' [Some ''t0''] [''a:0''])
        [mk_node ''c'' ''Abs'' [Some ''t0''] [''c:0'']] dup_output_scenario
       = dup_output_merged"
proof -
  note scenario = retained_node_has_most_declared_outputs
    [of abs_class "(init_optimizer, abs_scenario)"]
  note protected = retained_node_has_most_declared_outputs
    [of abs_class "(init_optimizer, dup_output_scenario)"]
  have first: "abs_class \<noteq> []"
    "sort_by_len_of_node_output abs_class
       = mk_node ''a'' ''Abs'' [Some ''t0''] [''a:0'']
         # [mk_node ''b'' ''Abs'' [Some ''t0''] [''b:0''], mk_node ''c'' ''Abs'' [Some ''t0''] [''c:0'']]"
    "len_of_node_output (mk_node ''b'' ''Abs'' [Some ''t0''] [''b:0''])
       \<le> len_of_node_output (mk_node ''a'' ''Abs'' [Some ''t0''] [''a:0''])"
    using abs_class_sorted by (simp_all add: abs_class_def len_of_node_output_def mk_node_def)
  have run: "merge_nodes_that_are_duplicated abs_class (init_optimizer, abs_scenario)
       = Inr (fold (delete_or_keep (mk_node ''a'' ''Abs'' [Some ''t0''] [''a:0'']))
               [mk_node ''b'' ''Abs'' [Some ''t0''] [''b:0''], mk_node ''c'' ''Abs'' [Some ''t0''] [''c:0'']]
               (init_optimizer, abs_scenario))"
    using scenario first(1,2) by simp
  show ?thesis
    using protected first run abs_scenario_optimized abs_class_merged by blast
qed

text \<open>
  C1 as stated fails on the scenario: the outputs of \<open>a\<close>, \<open>b\<close>, \<open>c\<close> have 1, 2 and 0
  consumers, and the node that remains is \<open>a\<close>, not \<open>b\<close>.
\<close>

theorem most_consumed_node_not_retained:
  "length (find_output_consumers abs_scenario (Some ''a:0'')) = 1
   \<and> length (find_output_consumers abs_scenario (Some ''b:0'')) = 2
   \<and> length (find_output_consumers abs_scenario (Some ''c:0'')) = 0
   \<and> optimize_at_current_graph_level (init_optimizer, abs_scenario)
        = Inr (\<lparr>graph_can_be_optimized = False\<rparr>, abs_scenario_merged)
   \<and> map node_name (graph_nodes abs_scenario_merged) = [''x'', ''a'', ''u1'', ''u2'', ''u3'']
   \<and> ''b'' \<notin> set (map node_name (graph_nodes abs_scenario_merged))"
  using abs_scenario_optimized
  by (simp add: abs_scenario_def abs_scenario_merged_def mk_node_def find_output_consumers_def
      get_nodes_def)


section \<open>Claims about the loop rewriter\<close>

lemma od_set_fresh: "k \<notin> set (od_keys d) \<Longrightarrow> od_set k v d = d @ [(k, v)]"
  by (induction d) (auto simp: od_keys_def)

text \<open>
  C8. Registering a loop variable: when its entry name is already a key of the scan bucket
  or of the state bucket, \<open>add_variable\<close> fails with the fatal duplicate-declaration error
  (the \<open>make_sure\<close> failure naming the variable); otherwise the variable is appended to the
  state bucket when its tensor-array flag is false and to the scan bucket when it is true,
  the other bucket being left alone. Entry names that were registered once across both
  buckets are still registered once afterwards.
\<close>

theorem add_variable_buckets:
  "add_variable self (Some var) =
     (if enter_name var \<in> set (od_keys (scan_variables self))
      then Inl (ValueError (''make_sure failure: variable '' @ enter_name var
                            @ '' already exists as scan variable.''))
      else if enter_name var \<in> set (od_keys (state_variables self))
      then Inl (ValueError (''make_sure failure: variable '' @ enter_name var
                            @ '' already exists as state variable.''))
      else if \<not> is_tensor_array var
      then Inr (self\<lparr>state_variables := state_variables self @ [(enter_name var, var)]\<rparr>)
      else Inr (self\<lparr>scan_variables := scan_variables self @ [(enter_name var, var)]\<rparr>))
   \<and> (\<forall>self'. add_variable self (Some var) = Inr self' \<longrightarrow>
          distinct (od_keys (state_variables self) @ od_keys (scan_variables self)) \<longrightarrow>
          distinct (od_keys (state_variables self') @ od_keys (scan_variables self')))"
proof
  show eq: "add_variable self (Some var) =
     (if enter_name var \<in> set (od_keys (scan_variables self))
      then Inl (ValueError (''make_sure failure: variable '' @ enter_name var
                            @ '' already exists as scan variable.''))
      else if enter_name var \<in> set (od_keys (state_variables self))
      then Inl (ValueError (''make_sure failure: variable '' @ enter_name var
                            @ '' already exists as state variable.''))
      else if \<not> is_tensor_array var
      then Inr (self\<lparr>state_variables := state_variables self @ [(enter_name var, var)]\<rparr>)
      else Inr (self\<lparr>scan_variables := scan_variables self @ [(enter_name var, var)]\<rparr>))"
    by (simp add: add_variable_def bind_err_def attr_of_def make_sure_def od_set_fresh)
  show "\<forall>self'. add_variable self (Some var) = Inr self' \<longrightarrow>
          distinct (od_keys (state_variables self) @ od_keys (scan_variables self)) \<longrightarrow>
          distinct (od_keys (state_variables self') @ od_keys (scan_variables self'))"
    unfolding eq by (auto simp: od_keys_def split: if_splits)
qed

text \<open>A state variable and a tensor-array variable.\<close>

definition var_i :: loop_variable where
  "var_i = \<lparr>enter_name = ''while/Enter'', enter_input_id = Some ''init:0'',
            next_iteration_input = TensorValueInfo (Some ''while/add:0''),
            switch_true_identity_output = TensorValueInfo (Some ''while/Identity:0''),
            exit_output = TensorValueInfo (Some ''while/Exit:0''),
            is_tensor_array = False, ta_index_id = None\<rparr>"

definition var_ta :: loop_variable where
  "var_ta = \<lparr>enter_name = ''while/Enter_1'', enter_input_id = Some ''ta:0'',
             next_iteration_input = TensorValueInfo (Some ''while/mul:0''),
             switch_true_identity_output = TensorValueInfo (Some ''while/Identity_1:0''),
             exit_output = TensorValueInfo None,
             is_tensor_array = True, ta_index_id = Some ''while/Identity:0''\<rparr>"

theorem add_variable_buckets_witness:
  "add_variable LoopProperties (Some var_i)
     = Inr \<lparr>state_variables = [(''while/Enter'', var_i)], scan_variables = [],
            tensor_array_inputs = []\<rparr>
   \<and> add_variable \<lparr>state_variables = [(''while/Enter'', var_i)], scan_variables = [],
                    tensor_array_inputs = []\<rparr> (Some var_ta)
     = Inr \<lparr>state_variables = [(''while/Enter'', var_i)],
            scan_variables = [(''while/Enter_1'', var_ta)], tensor_array_inputs = []\<rparr>
   \<and> add_variable \<lparr>state_variables = [(''while/Enter'', var_i)],
                    scan_variables = [(''while/Enter_1'', var_ta)], tensor_array_inputs = []\<rparr>
         (Some var_i)
     = Inl (ValueError ''make_sure failure: variable while/Enter already exists as state variable.'')
   \<and> add_variable \<lparr>state_variables = [(''while/Enter'', var_i)],
                    scan_variables = [(''while/Enter_1'', var_ta)], tensor_array_inputs = []\<rparr>
         (Some var_ta)
     = Inl (ValueError ''make_sure failure: variable while/Enter_1 already exists as scan variable.'')
   \<and> distinct (od_keys [(''while/Enter'', var_i)] @ od_keys [(''while/Enter_1'', var_ta)])"
  using add_variable_buckets [of LoopProperties var_i]
    add_variable_buckets [of "\<lparr>state_variables = [(''while/Enter'', var_i)], scan_variables = [],
                    tensor_array_inputs = []\<rparr>" var_ta]
    add_variable_buckets [of "\<lparr>state_variables = [(''while/Enter'', var_i)],
                    scan_variables = [(''while/Enter_1'', var_ta)], tensor_array_inputs = []\<rparr>" var_i]
    add_variable_buckets [of "\<lparr>state_variables = [(''while/Enter'', var_i)],
                    scan_variables = [(''while/Enter_1'', var_ta)], tensor_array_inputs = []\<rparr>" var_ta]
  by (simp add: LoopProperties_def od_keys_def var_i_def var_ta_def)


text \<open>
  A while loop over one counter: \<open>i = init; while i < limit: i = i + 1\<close>, in the
  primitive control-flow encoding.
\<close>

definition while_nodes :: "unit node list" where
  "while_nodes =
     [mk_node ''init'' ''Const'' [] [''init:0''],
      mk_node ''limit'' ''Const'' [] [''limit:0''],
      mk_node ''while/Enter'' ''Enter'' [Some ''init:0''] [''while/Enter:0''],
      mk_node ''while/Merge'' ''Merge'' [Some ''while/Enter:0'', Some ''while/NextIteration:0'']
        [''while/Merge:0'', ''while/Merge:1''],
      mk_node ''while/Less'' ''Less'' [Some ''while/Merge:0'', Some ''limit:0''] [''while/Less:0''],
      mk_node ''while/LoopCond'' ''LoopCond'' [Some ''while/Less:0''] [''while/LoopCond:0''],
      mk_node ''while/Switch'' ''Switch'' [Some ''while/Merge:0'', Some ''while/LoopCond:0'']
        [''while/Switch:0'', ''while/Switch:1''],
      mk_node ''while/Identity'' ''Identity'' [Some ''while/Switch:1''] [''while/Identity:0''],
      mk_node ''while/add/y'' ''Const'' [] [''while/add/y:0''],
      mk_node ''while/add'' ''Add'' [Some ''while/Identity:0'', Some ''while/add/y:0'']
        [''while/add:0''],
      mk_node ''while/NextIteration'' ''NextIteration'' [Some ''while/add:0'']
        [''while/NextIteration:0''],
      mk_node ''while/Exit'' ''Exit'' [Some ''while/Switch:0''] [''while/Exit:0'']]"

definition while_graph :: "unit graph" where
  "while_graph = \<lparr>graph_nodes = while_nodes, graph_outputs = [''while/Exit:0'']\<rparr>"

definition while_loop_cond :: "unit node" where
  "while_loop_cond = mk_node ''while/LoopCond'' ''LoopCond'' [Some ''while/Less:0''] [''while/LoopCond:0'']"

text \<open>A strategy that takes every loop and then skips it.\<close>

definition skipping_rewriter :: "unit rewriter" where
  "skipping_rewriter =
     \<lparr>need_rewrite = (\<lambda>g context. True), rewrite = (\<lambda>g context. (SKIP, g)),
      match_ops = (\<lambda>g. [])\<rparr>"


text \<open>No step of the pass writes the declared outputs.\<close>

lemma remove_node_graph_outputs: "graph_outputs (remove_node g nm) = graph_outputs g"
  by (simp add: remove_node_def)

lemma cut_off_variables_outputs:
  "cut_off_variables vs g = Inr g' \<Longrightarrow> graph_outputs g' = graph_outputs g"
proof (induction vs arbitrary: g)
  case Nil
  then show ?case by simp
next
  case (Cons val rest)
  from Cons.prems obtain g1 where
    g1: "(if truthy (tvi_id (switch_true_identity_output val))
        then bind_err (attr_of (get_node_by_output g (tvi_id (switch_true_identity_output val))))
               (\<lambda>n. Inr (remove_node g (node_name n)))
        else Inr g) = Inr g1"
    and rest: "(if is_tensor_array val
       then cut_off_variables rest
              (replace_all_inputs g1
                 (map node_name (filter is_tensor_array_write_op (get_nodes g1)))
                 (tvi_id (next_iteration_input val)) (Some INVALID_INPUT_ID))
       else cut_off_variables rest
              (replace_all_inputs g1
                 (map node_name (filter (\<lambda>n. node_type n = ''NextIteration'') (get_nodes g1)))
                 (tvi_id (next_iteration_input val)) (Some INVALID_INPUT_ID))) = Inr g'"
    by (auto simp: bind_err_def split: sum.splits)
  have "graph_outputs g1 = graph_outputs g"
    using g1 by (auto simp: bind_err_def remove_node_graph_outputs split: if_splits sum.splits)
  moreover have "graph_outputs g' = graph_outputs g1"
    using rest Cons.IH by (auto split: if_splits)
  ultimately show ?case by simp
qed

lemma cut_off_scan_inputs_outputs:
  "cut_off_scan_inputs ts (g :: 'a graph) = Inr g' \<Longrightarrow> graph_outputs g' = graph_outputs g"
proof (induction ts arbitrary: g)
  case Nil
  then show ?case by simp
next
  case (Cons t ts)
  from Cons.prems obtain n :: "'a node" where
    "cut_off_scan_inputs ts (remove_node g (node_name n)) = Inr g'"
    by (auto simp: bind_err_def split: sum.splits)
  from Cons.IH [OF this] show ?case by (simp add: remove_node_graph_outputs)
qed

lemma cut_off_connection_for_cell_outputs:
  "cut_off_connection_for_cell g context = Inr g' \<Longrightarrow> graph_outputs g' = graph_outputs g"
  by (auto simp: cut_off_connection_for_cell_def bind_err_def split: sum.splits
      dest!: cut_off_variables_outputs cut_off_scan_inputs_outputs)

lemma rewire_enter_nodes_outputs:
  "rewire_enter_nodes ens ops g = Inr g' \<Longrightarrow> graph_outputs g' = graph_outputs g"
proof (induction ens arbitrary: g)
  case Nil
  then show ?case by simp
next
  case (Cons e ens)
  from Cons.prems obtain o0 i0 where
    "rewire_enter_nodes ens ops (replace_all_inputs g ops (Some o0) i0) = Inr g'"
    by (auto simp: bind_err_def split: sum.splits)
  from Cons.IH [OF this] show ?case by simp
qed

lemma for_each_merge_outputs:
  "for_each_merge ms context g acc = Inr (g', vars) \<Longrightarrow> graph_outputs g' = graph_outputs g"
proof (induction ms arbitrary: g acc)
  case Nil
  then show ?case by simp
next
  case (Cons m ms)
  from Cons.prems obtain g1 acc1 where
    "for_each_merge ms context g1 acc1 = Inr (g', vars)" "graph_outputs g1 = graph_outputs g"
    by (auto simp: bind_err_def Let_def split: sum.splits)
  with Cons.IH show ?case by metis
qed


lemma crop_loop_body_sub_graph_outputs:
  "crop_loop_body_sub_graph g context = Inr (g', info) \<Longrightarrow> graph_outputs g' = graph_outputs g"
  by (auto simp: crop_loop_body_sub_graph_def Let_def bind_err_def split: prod.splits sum.splits
      dest: rewire_enter_nodes_outputs)

lemma crop_loop_condition_sub_graph_outputs:
  "crop_loop_condition_sub_graph g context = Inr (g', info) \<Longrightarrow>
   graph_outputs g' = graph_outputs g"
  by (auto simp: crop_loop_condition_sub_graph_def Let_def bind_err_def
      split: prod.splits sum.splits
      dest!: rewire_enter_nodes_outputs for_each_merge_outputs)



lemma bind_err_eq_Inr: "bind_err m f = Inr y \<longleftrightarrow> (\<exists>x. m = Inr x \<and> f x = Inr y)"
  by (cases m) (simp_all add: bind_err_def)

lemma for_each_loopcond_outputs:
  assumes strat: "\<And>g c. graph_outputs (snd (rewrite self g c)) = graph_outputs g"
  shows "for_each_loopcond self ops g = Inr g' \<Longrightarrow> graph_outputs g' = graph_outputs g"
proof (induction ops arbitrary: g)
  case Nil
  then show ?case by simp
next
  case (Cons op rest)
  from Cons.prems obtain ctx where
    c: "check_in_read_only_mode (match_ops self) g (Context\<lparr>loop_cond := Some op\<rparr>) = Inr ctx"
    and r: "(if need_rewrite self g ctx then
            bind_err (cut_off_connection_for_cell g ctx) (\<lambda>g1.
            bind_err (crop_loop_body_sub_graph g1 ctx) (\<lambda>(g2, cell).
            bind_err (crop_loop_condition_sub_graph g2 (ctx\<lparr>cell_graph := Some cell\<rparr>))
              (\<lambda>(g3, cond).
                 case rewrite self g3 (ctx\<lparr>cell_graph := Some cell, cond_graph := Some cond\<rparr>) of
                   (result, g4) \<Rightarrow>
                     (case result of
                        OK \<Rightarrow> for_each_loopcond self rest g4
                      | SKIP \<Rightarrow> for_each_loopcond self rest g4
                      | FAIL \<Rightarrow> Inl (ValueError ''rewrite failed, so just fast fail it'')))))
          else for_each_loopcond self rest g) = Inr g'"
    unfolding for_each_loopcond.simps bind_err_eq_Inr by blast
  show ?case
  proof (cases "need_rewrite self g ctx")
    case False
    with r have "for_each_loopcond self rest g = Inr g'" by simp
    with Cons.IH show ?thesis .
  next
    case True
    with r have r0: "bind_err (cut_off_connection_for_cell g ctx) (\<lambda>g1.
            bind_err (crop_loop_body_sub_graph g1 ctx) (\<lambda>(g2, cell).
            bind_err (crop_loop_condition_sub_graph g2 (ctx\<lparr>cell_graph := Some cell\<rparr>))
              (\<lambda>(g3, cond).
                 case rewrite self g3 (ctx\<lparr>cell_graph := Some cell, cond_graph := Some cond\<rparr>) of
                   (result, g4) \<Rightarrow>
                     (case result of
                        OK \<Rightarrow> for_each_loopcond self rest g4
                      | SKIP \<Rightarrow> for_each_loopcond self rest g4
                      | FAIL \<Rightarrow> Inl (ValueError ''rewrite failed, so just fast fail it''))))) = Inr g'"
      by simp
    then obtain g1 p2 where s1: "cut_off_connection_for_cell g ctx = Inr g1"
      and s2: "crop_loop_body_sub_graph g1 ctx = Inr p2"
      and r2: "(case p2 of (g2, cell) \<Rightarrow>
            bind_err (crop_loop_condition_sub_graph g2 (ctx\<lparr>cell_graph := Some cell\<rparr>))
              (\<lambda>(g3, cond).
                 case rewrite self g3 (ctx\<lparr>cell_graph := Some cell, cond_graph := Some cond\<rparr>) of
                   (result, g4) \<Rightarrow>
                     (case result of
                        OK \<Rightarrow> for_each_loopcond self rest g4
                      | SKIP \<Rightarrow> for_each_loopcond self rest g4
                      | FAIL \<Rightarrow> Inl (ValueError ''rewrite failed, so just fast fail it'')))) = Inr g'"
      unfolding bind_err_eq_Inr by blast
    obtain g2 cell where p2: "p2 = (g2, cell)" by (cases p2)
    from r2 p2 have "bind_err (crop_loop_condition_sub_graph g2 (ctx\<lparr>cell_graph := Some cell\<rparr>))
              (\<lambda>(g3, cond).
                 case rewrite self g3 (ctx\<lparr>cell_graph := Some cell, cond_graph := Some cond\<rparr>) of
                   (result, g4) \<Rightarrow>
                     (case result of
                        OK \<Rightarrow> for_each_loopcond self rest g4
                      | SKIP \<Rightarrow> for_each_loopcond self rest g4
                      | FAIL \<Rightarrow> Inl (ValueError ''rewrite failed, so just fast fail it''))) = Inr g'"
      by simp
    then obtain p3 where
      s3: "crop_loop_condition_sub_graph g2 (ctx\<lparr>cell_graph := Some cell\<rparr>) = Inr p3"
      and r3: "(case p3 of (g3, cond) \<Rightarrow>
                 case rewrite self g3 (ctx\<lparr>cell_graph := Some cell, cond_graph := Some cond\<rparr>) of
                   (result, g4) \<Rightarrow>
                     (case result of
                        OK \<Rightarrow> for_each_loopcond self rest g4
                      | SKIP \<Rightarrow> for_each_loopcond self rest g4
                      | FAIL \<Rightarrow> Inl (ValueError ''rewrite failed, so just fast fail it''))) = Inr g'"
      unfolding bind_err_eq_Inr by blast
    obtain g3 cond where p3: "p3 = (g3, cond)" by (cases p3)
    obtain result g4 where
      s4: "rewrite self g3 (ctx\<lparr>cell_graph := Some cell, cond_graph := Some cond\<rparr>) = (result, g4)"
      by (cases "rewrite self g3 (ctx\<lparr>cell_graph := Some cell, cond_graph := Some cond\<rparr>)")
    from r3 p3 s4 have s5: "for_each_loopcond self rest g4 = Inr g'"
      by (cases result) simp_all
    have "graph_outputs g4 = graph_outputs g3" using strat [of g3] s4 by (metis snd_conv)
    moreover have "graph_outputs g3 = graph_outputs g2"
      using s3 p3 by (simp add: crop_loop_condition_sub_graph_outputs)
    moreover have "graph_outputs g2 = graph_outputs g1"
      using s2 p2 by (simp add: crop_loop_body_sub_graph_outputs)
    moreover have "graph_outputs g1 = graph_outputs g"
      using s1 by (rule cut_off_connection_for_cell_outputs)
    ultimately have "graph_outputs g4 = graph_outputs g" by simp
    with Cons.IH [OF s5] show ?thesis by simp
  qed
qed

text \<open>
  C9. When the graph declares no outputs at the end of the loop over the loop-condition
  nodes, the cleanup is skipped: \<open>run_internal\<close> returns the graph exactly as that loop
  left it, no node deleted. The pass itself never writes the declared outputs, so with a
  strategy that leaves them alone too, a graph that declares no outputs at the start gets
  no cleanup.
\<close>

theorem no_outputs_no_cleanup:
  "(for_each_loopcond self (filter is_loopcond_op (get_nodes g)) g = Inr g' \<and>
      graph_outputs g' = [] \<longrightarrow>
      cleanup g' = g' \<and> run_internal self g = Inr g')
   \<and> (graph_outputs g = [] \<and> (\<forall>h c. graph_outputs (snd (rewrite self h c)) = graph_outputs h) \<longrightarrow>
      run_internal self g = for_each_loopcond self (filter is_loopcond_op (get_nodes g)) g)"
proof (intro conjI impI)
  assume a: "for_each_loopcond self (filter is_loopcond_op (get_nodes g)) g = Inr g' \<and>
      graph_outputs g' = []"
  then show "cleanup g' = g'" by (simp add: cleanup_def)
  with a show "run_internal self g = Inr g'" by (simp add: run_internal_def bind_err_def)
next
  assume a: "graph_outputs g = [] \<and>
    (\<forall>h c. graph_outputs (snd (rewrite self h c)) = graph_outputs h)"
  show "run_internal self g = for_each_loopcond self (filter is_loopcond_op (get_nodes g)) g"
  proof (cases "for_each_loopcond self (filter is_loopcond_op (get_nodes g)) g")
    case (Inl e)
    then show ?thesis by (simp add: run_internal_def bind_err_def)
  next
    case (Inr g1)
    have strat: "\<And>h c. graph_outputs (snd (rewrite self h c)) = graph_outputs h"
      using a by simp
    have "graph_outputs g1 = graph_outputs g"
      by (rule for_each_loopcond_outputs [OF strat Inr])
    with a Inr show ?thesis by (simp add: run_internal_def bind_err_def cleanup_def)
  qed
qed


text \<open>
  The remnants of the skipped loop: with no declared outputs the cut-off body
  (\<open>while/add\<close>, \<open>while/add/y\<close>) stays; with the exit declared as output it is dropped.
\<close>

definition while_remnants :: "unit node list" where
  "while_remnants =
     [mk_node ''init'' ''Const'' [] [''init:0''],
      mk_node ''limit'' ''Const'' [] [''limit:0''],
      mk_node ''while/Enter'' ''Enter'' [Some ''init:0''] [''while/Enter:0''],
      mk_node ''while/Merge'' ''Merge'' [Some ''while/Enter:0'', Some ''while/NextIteration:0'']
        [''while/Merge:0'', ''while/Merge:1''],
      mk_node ''while/Less'' ''Less'' [Some ''while/Identity:0'', Some ''limit:0''] [''while/Less:0''],
      mk_node ''while/LoopCond'' ''LoopCond'' [Some ''while/Less:0''] [''while/LoopCond:0''],
      mk_node ''while/Switch'' ''Switch'' [Some ''while/Merge:0'', Some ''while/LoopCond:0'']
        [''while/Switch:0'', ''while/Switch:1''],
      mk_node ''while/add/y'' ''Const'' [] [''while/add/y:0''],
      mk_node ''while/add'' ''Add'' [Some ''while/Identity:0'', Some ''while/add/y:0'']
        [''while/add:0''],
      mk_node ''while/NextIteration'' ''NextIteration'' [Some ''invalid_input_id__1'']
        [''while/NextIteration:0''],
      mk_node ''while/Exit'' ''Exit'' [Some ''while/Switch:0''] [''while/Exit:0'']]"

lemma while_no_outputs_loops:
  "for_each_loopcond skipping_rewriter
     (filter is_loopcond_op (get_nodes (while_graph\<lparr>graph_outputs := []\<rparr>)))
     (while_graph\<lparr>graph_outputs := []\<rparr>)
   = Inr \<lparr>graph_nodes = while_remnants, graph_outputs = []\<rparr>"
  by code_simp

lemma while_outputs_run:
  "run_internal skipping_rewriter while_graph
   = Inr \<lparr>graph_nodes =
            filter (\<lambda>n. node_name n \<notin> set [''while/add/y'', ''while/add'']) while_remnants,
          graph_outputs = [''while/Exit:0'']\<rparr>"
  by code_simp

theorem no_outputs_no_cleanup_witness:
  "for_each_loopcond skipping_rewriter
     (filter is_loopcond_op (get_nodes (while_graph\<lparr>graph_outputs := []\<rparr>)))
     (while_graph\<lparr>graph_outputs := []\<rparr>)
     = Inr \<lparr>graph_nodes = while_remnants, graph_outputs = []\<rparr>
   \<and> graph_outputs \<lparr>graph_nodes = while_remnants, graph_outputs = []\<rparr> = []
   \<and> run_internal skipping_rewriter (while_graph\<lparr>graph_outputs := []\<rparr>)
     = Inr \<lparr>graph_nodes = while_remnants, graph_outputs = []\<rparr>
   \<and> mk_node ''while/add'' ''Add'' [Some ''while/Identity:0'', Some ''while/add/y:0'']
        [''while/add:0''] \<in> set while_remnants"
  using no_outputs_no_cleanup [of skipping_rewriter "while_graph\<lparr>graph_outputs := []\<rparr>"
      "\<lparr>graph_nodes = while_remnants, graph_outputs = []\<rparr>"]
    while_no_outputs_loops
  by (simp add: while_remnants_def)


text \<open>
  Once the switch has passed the two tests at the head of \<open>_get_loop_var_from_switch\<close>,
  the result is what the true branch and then the rest of the function make of it; and a
  variable the rest returns records the true branch's finding.
\<close>

lemma get_loop_var_from_switch_guarded:
  assumes "node_type s = ''Switch''" and "py_index (node_inputs g s) 0 = Inr (Some m)"
    and "node_type m = ''Merge''"
  shows "get_loop_var_from_switch g s
           = bind_err (switch_true_branch g s) (loop_var_after_true_branch g s m)"
  using assms by (simp add: get_loop_var_from_switch_def bind_err_def attr_of_def)

lemma loop_var_after_true_branch_records:
  assumes "loop_var_after_true_branch g s m t = Inr v"
  shows "\<exists>lv. v = Some lv \<and> tvi_id (switch_true_identity_output lv) = t"
proof -
  from assms obtain lv a b c d e f where "v = Some lv" and "LoopVariable a b c t d e f = Inr lv"
    unfolding loop_var_after_true_branch_def
    by (simp add: bind_err_eq_Inr split: prod.splits) blast
  then show ?thesis by (auto simp: LoopVariable_def bind_err_eq_Inr)
qed

lemma switch_true_branch_cases:
  assumes "py_index (node_output s) 1 = Inr o1"
  shows "find_output_consumers g (Some o1) = [] \<Longrightarrow> switch_true_branch g s = Inr None"
    and "find_output_consumers g (Some o1) = [c] \<Longrightarrow> node_type c = ''Identity'' \<Longrightarrow>
         switch_true_branch g s = bind_err (py_index (node_output c) 0) (\<lambda>o0. Inr (Some o0))"
    and "find_output_consumers g (Some o1) = [c] \<Longrightarrow> node_type c \<noteq> ''Identity'' \<Longrightarrow>
         switch_true_branch g s = Inl (ValueError ''switch has consumer that is not Identity'')"
    and "2 \<le> length (find_output_consumers g (Some o1)) \<Longrightarrow>
         switch_true_branch g s = Inl (ValueError (''switch_true '' @ node_name s
                                        @ '' has unexpected count of consumers:''))"
  using assms by (auto simp: switch_true_branch_def bind_err_def Let_def)

text \<open>
  C4, for the switches the claim can be about. For a switch whose first operand is produced
  by a \<open>Merge\<close> node, with true-branch output \<open>o1\<close>: with no consumer of \<open>o1\<close> the true
  branch raises nothing and classification goes on with the body-entry reference absent;
  with exactly one consumer that is an \<open>Identity\<close> node it goes on with that node's first
  output as body-entry reference; with exactly one consumer that is not an \<open>Identity\<close> node
  it fails with the structural error ``switch has consumer that is not Identity''; with two
  or more consumers it fails with the structural error ``unexpected count of consumers''.
  Whatever the rest of the classification returns is a variable, never \<open>None\<close>, and its
  body-entry reference is the one it was given.
\<close>

theorem true_branch_classification:
  assumes "node_type s = ''Switch''" and "py_index (node_inputs g s) 0 = Inr (Some m)"
    and "node_type m = ''Merge''" and "py_index (node_output s) 1 = Inr o1"
  shows "(find_output_consumers g (Some o1) = [] \<longrightarrow>
           get_loop_var_from_switch g s = loop_var_after_true_branch g s m None)
    \<and> (\<forall>c. find_output_consumers g (Some o1) = [c] \<and> node_type c = ''Identity'' \<longrightarrow>
           get_loop_var_from_switch g s
             = bind_err (py_index (node_output c) 0)
                 (\<lambda>o0. loop_var_after_true_branch g s m (Some o0)))
    \<and> (\<forall>c. find_output_consumers g (Some o1) = [c] \<and> node_type c \<noteq> ''Identity'' \<longrightarrow>
           get_loop_var_from_switch g s
             = Inl (ValueError ''switch has consumer that is not Identity''))
    \<and> (2 \<le> length (find_output_consumers g (Some o1)) \<longrightarrow>
           get_loop_var_from_switch g s
             = Inl (ValueError (''switch_true '' @ node_name s
                                @ '' has unexpected count of consumers:'')))
    \<and> (\<forall>t v. loop_var_after_true_branch g s m t = Inr v \<longrightarrow>
           (\<exists>lv. v = Some lv \<and> tvi_id (switch_true_identity_output lv) = t))"
proof -
  note gd = get_loop_var_from_switch_guarded [OF assms(1,2,3)]
  note cs = switch_true_branch_cases [OF assms(4), of g]
  have c0: "find_output_consumers g (Some o1) = [] \<longrightarrow>
           get_loop_var_from_switch g s = loop_var_after_true_branch g s m None"
    using cs(1) by (auto simp: gd bind_err_def)
  have c1: "\<forall>c. find_output_consumers g (Some o1) = [c] \<and> node_type c = ''Identity'' \<longrightarrow>
           get_loop_var_from_switch g s
             = bind_err (py_index (node_output c) 0)
                 (\<lambda>o0. loop_var_after_true_branch g s m (Some o0))"
  proof (intro allI impI)
    fix c
    assume "find_output_consumers g (Some o1) = [c] \<and> node_type c = ''Identity''"
    then have "switch_true_branch g s = bind_err (py_index (node_output c) 0) (\<lambda>o0. Inr (Some o0))"
      using cs(2) by blast
    then show "get_loop_var_from_switch g s
             = bind_err (py_index (node_output c) 0)
                 (\<lambda>o0. loop_var_after_true_branch g s m (Some o0))"
      by (cases "py_index (node_output c) 0") (simp_all add: gd bind_err_def)
  qed
  have c2: "\<forall>c. find_output_consumers g (Some o1) = [c] \<and> node_type c \<noteq> ''Identity'' \<longrightarrow>
           get_loop_var_from_switch g s
             = Inl (ValueError ''switch has consumer that is not Identity'')"
    using cs(3) by (auto simp: gd bind_err_def)
  have c3: "2 \<le> length (find_output_consumers g (Some o1)) \<longrightarrow>
           get_loop_var_from_switch g s
             = Inl (ValueError (''switch_true '' @ node_name s
                                @ '' has unexpected count of consumers:''))"
    using cs(4) by (auto simp: gd bind_err_def)
  have c4: "\<forall>t v. loop_var_after_true_branch g s m t = Inr v \<longrightarrow>
           (\<exists>lv. v = Some lv \<and> tvi_id (switch_true_identity_output lv) = t)"
    using loop_var_after_true_branch_records by blast
  from c0 c1 c2 c3 c4 show ?thesis by blast
qed

text \<open>
  Nodes of the while loop; the loop with a second consumer of the true branch; and a loop
  whose body does not read its variable, so that the true branch has no consumer.
\<close>

definition while_switch :: "unit node" where
  "while_switch = mk_node ''while/Switch'' ''Switch'' [Some ''while/Merge:0'', Some ''while/LoopCond:0'']
        [''while/Switch:0'', ''while/Switch:1'']"

definition while_merge :: "unit node" where
  "while_merge = mk_node ''while/Merge'' ''Merge''
        [Some ''while/Enter:0'', Some ''while/NextIteration:0''] [''while/Merge:0'', ''while/Merge:1'']"

definition while_identity :: "unit node" where
  "while_identity = mk_node ''while/Identity'' ''Identity'' [Some ''while/Switch:1'']
        [''while/Identity:0'']"

definition while_graph_two :: "unit graph" where
  "while_graph_two =
     while_graph\<lparr>graph_nodes := while_nodes
        @ [mk_node ''while/Neg'' ''Neg'' [Some ''while/Switch:1''] [''while/Neg:0'']]\<rparr>"

definition while_graph_unused :: "unit graph" where
  "while_graph_unused =
     \<lparr>graph_nodes =
        [mk_node ''init'' ''Const'' [] [''init:0''],
         mk_node ''limit'' ''Const'' [] [''limit:0''],
         mk_node ''while/Enter'' ''Enter'' [Some ''init:0''] [''while/Enter:0''],
         while_merge,
         mk_node ''while/Less'' ''Less'' [Some ''while/Merge:0'', Some ''limit:0''] [''while/Less:0''],
         while_loop_cond,
         while_switch,
         mk_node ''while/next'' ''Const'' [] [''while/next:0''],
         mk_node ''while/NextIteration'' ''NextIteration'' [Some ''while/next:0'']
           [''while/NextIteration:0''],
         mk_node ''while/Exit'' ''Exit'' [Some ''while/Switch:0''] [''while/Exit:0'']],
      graph_outputs = [''while/Exit:0'']\<rparr>"

definition var_unused :: loop_variable where
  "var_unused = \<lparr>enter_name = ''while/Enter'', enter_input_id = Some ''init:0'',
            next_iteration_input = TensorValueInfo (Some ''while/next:0''),
            switch_true_identity_output = TensorValueInfo None,
            exit_output = TensorValueInfo (Some ''while/Exit:0''),
            is_tensor_array = False, ta_index_id = None\<rparr>"

lemma while_switch_facts:
  "node_type while_switch = ''Switch''"
  "py_index (node_inputs while_graph while_switch) 0 = Inr (Some while_merge)"
  "node_type while_merge = ''Merge''"
  "py_index (node_output while_switch) 1 = Inr ''while/Switch:1''"
  by code_simp+

lemma while_unused_facts:
  "node_type while_switch = ''Switch''"
  "py_index (node_inputs while_graph_unused while_switch) 0 = Inr (Some while_merge)"
  "node_type while_merge = ''Merge''"
  "py_index (node_output while_switch) 1 = Inr ''while/Switch:1''"
  by code_simp+

lemma while_switch_consumers:
  "find_output_consumers while_graph (Some ''while/Switch:1'') = [while_identity]"
  "find_output_consumers while_graph_unused (Some ''while/Switch:1'') = []"
  "length (find_output_consumers while_graph_two (Some ''while/Switch:1'')) = 2"
  by code_simp+

lemma while_switch_classified:
  "get_loop_var_from_switch while_graph while_switch = Inr (Some var_i)"
  "get_loop_var_from_switch while_graph_unused while_switch = Inr (Some var_unused)"
  "loop_var_after_true_branch while_graph_unused while_switch while_merge None
     = Inr (Some var_unused)"
  "loop_var_after_true_branch while_graph while_switch while_merge (Some ''while/Identity:0'')
     = Inr (Some var_i)"
  by code_simp+

lemma while_switch_two_consumers:
  "get_loop_var_from_switch while_graph_two while_switch
     = Inl (ValueError ''switch_true while/Switch has unexpected count of consumers:'')"
  by code_simp

theorem true_branch_classification_witness:
  "node_type while_switch = ''Switch''
   \<and> py_index (node_inputs while_graph while_switch) 0 = Inr (Some while_merge)
   \<and> py_index (node_inputs while_graph_unused while_switch) 0 = Inr (Some while_merge)
   \<and> node_type while_merge = ''Merge''
   \<and> py_index (node_output while_switch) 1 = Inr ''while/Switch:1''
   \<and> find_output_consumers while_graph_unused (Some ''while/Switch:1'') = []
   \<and> get_loop_var_from_switch while_graph_unused while_switch
       = loop_var_after_true_branch while_graph_unused while_switch while_merge None
   \<and> get_loop_var_from_switch while_graph_unused while_switch = Inr (Some var_unused)
   \<and> tvi_id (switch_true_identity_output var_unused) = None
   \<and> find_output_consumers while_graph (Some ''while/Switch:1'') = [while_identity]
   \<and> node_type while_identity = ''Identity''
   \<and> get_loop_var_from_switch while_graph while_switch = Inr (Some var_i)
   \<and> tvi_id (switch_true_identity_output var_i) = Some ''while/Identity:0''
   \<and> length (find_output_consumers while_graph_two (Some ''while/Switch:1'')) = 2
   \<and> get_loop_var_from_switch while_graph_two while_switch
       = Inl (ValueError ''switch_true while/Switch has unexpected count of consumers:'')"
  using true_branch_classification [OF while_unused_facts]
    true_branch_classification [OF while_switch_facts]
    while_switch_facts while_unused_facts while_switch_consumers while_switch_classified
    while_switch_two_consumers
  by (simp add: while_identity_def mk_node_def var_i_def var_unused_def)

text \<open>
  A loop predicate whose switch takes its data straight from the \<open>Enter\<close> node, with no
  \<open>Merge\<close> in between.
\<close>

definition no_merge_switch :: "unit node" where
  "no_merge_switch = mk_node ''while/Switch'' ''Switch''
        [Some ''while/Enter:0'', Some ''while/LoopCond:0''] [''while/Switch:0'', ''while/Switch:1'']"

definition no_merge_graph :: "unit graph" where
  "no_merge_graph =
     \<lparr>graph_nodes =
        [mk_node ''init'' ''Const'' [] [''init:0''],
         mk_node ''limit'' ''Const'' [] [''limit:0''],
         mk_node ''while/Enter'' ''Enter'' [Some ''init:0''] [''while/Enter:0''],
         mk_node ''while/Less'' ''Less'' [Some ''while/Enter:0'', Some ''limit:0''] [''while/Less:0''],
         mk_node ''while/LoopCond'' ''LoopCond'' [Some ''while/Less:0''] [''while/LoopCond:0''],
         no_merge_switch,
         mk_node ''while/Exit'' ''Exit'' [Some ''while/Switch:0''] [''while/Exit:0'']],
      graph_outputs = [''while/Exit:0'']\<rparr>"

text \<open>
  C3 on the code. For the switch above \<open>_get_loop_var_from_switch\<close> raises nothing: it
  returns \<open>None\<close>. \<open>_parse_loop_variables\<close> hands that \<open>None\<close> to \<open>add_variable\<close>, whose
  first attribute access raises \<open>AttributeError\<close>; no structural error is raised.
\<close>

theorem switch_without_merge_returns_none:
  "find_output_consumers no_merge_graph (Some ''while/LoopCond:0'') = [no_merge_switch]
   \<and> py_index (node_inputs no_merge_graph no_merge_switch) 0
       = Inr (Some (mk_node ''while/Enter'' ''Enter'' [Some ''init:0''] [''while/Enter:0'']))
   \<and> get_loop_var_from_switch no_merge_graph no_merge_switch = Inr None
   \<and> add_variable LoopProperties None = Inl AttributeError
   \<and> parse_loop_variables no_merge_graph (Context\<lparr>loop_cond := Some while_loop_cond\<rparr>)
       = Inl AttributeError"
  by code_simp

text \<open>
  C4 as stated, for every switch, fails on a switch without a \<open>Merge\<close>, where
  \<open>_get_loop_var_from_switch\<close> returns \<open>None\<close> before it looks at the true branch: with
  no consumer of the true-branch output no variable is recorded, hence no absent
  body-entry reference either, and with two consumers nothing is raised by it.
\<close>

definition no_merge_two_graph :: "unit graph" where
  "no_merge_two_graph =
     no_merge_graph\<lparr>graph_nodes := graph_nodes no_merge_graph
        @ [mk_node ''while/Identity'' ''Identity'' [Some ''while/Switch:1''] [''while/Identity:0''],
           mk_node ''while/Neg'' ''Neg'' [Some ''while/Switch:1''] [''while/Neg:0'']]\<rparr>"

theorem two_consumers_without_merge_not_structural:
  "node_type no_merge_switch = ''Switch''
   \<and> find_output_consumers no_merge_graph (Some ''while/Switch:1'') = []
   \<and> get_loop_var_from_switch no_merge_graph no_merge_switch = Inr None
   \<and> length (find_output_consumers no_merge_two_graph (Some ''while/Switch:1'')) = 2
   \<and> get_loop_var_from_switch no_merge_two_graph no_merge_switch = Inr None
   \<and> parse_loop_variables no_merge_two_graph (Context\<lparr>loop_cond := Some while_loop_cond\<rparr>)
       = Inl AttributeError"
  by code_simp

text \<open>
  The while loop after classification (\<open>while_context\<close>) and after cell isolation
  (\<open>while_cut\<close>), and the condition subgraph cropped from it.
\<close>

definition while_context :: "unit loop_context" where
  "while_context =
     \<lparr>while_context_scope = Some ''while/'',
      loop_properties = \<lparr>state_variables = [(''while/Enter'', var_i)], scan_variables = [],
                         tensor_array_inputs = []\<rparr>,
      loop_cond = Some while_loop_cond, cell_graph = None, cond_graph = None\<rparr>"

definition while_cut :: "unit graph" where
  "while_cut =
     \<lparr>graph_nodes =
        [mk_node ''init'' ''Const'' [] [''init:0''],
         mk_node ''limit'' ''Const'' [] [''limit:0''],
         mk_node ''while/Enter'' ''Enter'' [Some ''init:0''] [''while/Enter:0''],
         while_merge,
         mk_node ''while/Less'' ''Less'' [Some ''while/Merge:0'', Some ''limit:0''] [''while/Less:0''],
         while_loop_cond,
         while_switch,
         mk_node ''while/add/y'' ''Const'' [] [''while/add/y:0''],
         mk_node ''while/add'' ''Add'' [Some ''while/Identity:0'', Some ''while/add/y:0'']
           [''while/add:0''],
         mk_node ''while/NextIteration'' ''NextIteration'' [Some INVALID_INPUT_ID]
           [''while/NextIteration:0''],
         mk_node ''while/Exit'' ''Exit'' [Some ''while/Switch:0''] [''while/Exit:0'']],
      graph_outputs = [''while/Exit:0'']\<rparr>"

definition while_cond_info :: graph_info where
  "while_cond_info =
     \<lparr>gi_nodes = [''while/Less''], gi_inputs = [],
      gi_outputs = [TensorValueInfo (Some ''while/Less:0'')],
      dependent_vars = Some [var_i]\<rparr>"

text \<open>
  C2 on the code. Cropping the condition subgraph of the while loop rewires the condition's
  reader of the merge output, and nothing else: line 304 searches the inputs of the
  loop-condition node itself for the loop-condition node's own output, which is not
  there. The switch, the single consumer of that output, reads it after the cropping as
  before; the only reader of the sentinel is the \<open>NextIteration\<close> node that cell isolation
  had cut.
\<close>

theorem loop_cond_output_not_severed:
  "check_in_read_only_mode (\<lambda>g. []) while_graph (Context\<lparr>loop_cond := Some while_loop_cond\<rparr>)
     = Inr while_context
   \<and> cut_off_connection_for_cell while_graph while_context = Inr while_cut
   \<and> find_output_consumers while_cut (Some ''while/LoopCond:0'') = [while_switch]
   \<and> crop_loop_condition_sub_graph while_cut while_context
       = Inr (\<lparr>graph_nodes = while_remnants, graph_outputs = [''while/Exit:0'']\<rparr>, while_cond_info)
   \<and> find_output_consumers \<lparr>graph_nodes = while_remnants, graph_outputs = [''while/Exit:0'']\<rparr>
         (Some ''while/LoopCond:0'') = [while_switch]
   \<and> node_input while_switch = [Some ''while/Merge:0'', Some ''while/LoopCond:0'']
   \<and> map node_name
         (find_output_consumers \<lparr>graph_nodes = while_remnants, graph_outputs = [''while/Exit:0'']\<rparr>
            (Some INVALID_INPUT_ID)) = [''while/NextIteration'']"
  by code_simp


subsection \<open>The dependencies of the condition subgraph\<close>

text \<open>What \<open>replace_all_inputs\<close> does to one node, and what it leaves alone.\<close>

definition rewire :: "string list \<Rightarrow> string option \<Rightarrow> string option \<Rightarrow> 'a node \<Rightarrow> 'a node" where
  "rewire ops old_input new_input n =
     (if node_name n \<in> set ops then replace_input old_input new_input n else n)"

lemma replace_all_inputs_rewire:
  "graph_nodes (replace_all_inputs g ops a b) = map (rewire ops a b) (graph_nodes g)"
  by (simp add: replace_all_inputs_def rewire_def)

lemma rewire_frame [simp]:
  "node_name (rewire ops a b n) = node_name n"
  "node_type (rewire ops a b n) = node_type n"
  "node_output (rewire ops a b n) = node_output n"
  by (simp_all add: rewire_def replace_input_def)

lemma rewire_input_length [simp]:
  "length (node_input (rewire ops a b n)) = length (node_input n)"
  by (simp add: rewire_def replace_input_def)

lemma rewire_input_nth:
  "i < length (node_input n) \<Longrightarrow>
   node_input (rewire ops a b n) ! i =
     (if node_name n \<in> set ops \<and> node_input n ! i = a then b else node_input n ! i)"
  by (simp add: rewire_def replace_input_def)

lemma rewire_input_absent:
  "a \<notin> set (node_input n) \<Longrightarrow> node_input (rewire ops a b n) = node_input n"
  by (auto simp: rewire_def replace_input_def intro!: map_idI)

lemma find_map_same:
  "(\<And>x. P (f x) = P x) \<Longrightarrow> find P (map f xs) = map_option f (find P xs)"
  by (induction xs) simp_all

lemma get_node_by_output_rewire:
  "get_node_by_output (replace_all_inputs g ops a b) x
     = map_option (rewire ops a b) (get_node_by_output g x)"
proof (cases x)
  case None
  then show ?thesis by (simp add: get_node_by_output_def)
next
  case (Some s)
  have "find (\<lambda>n. s \<in> set (node_output n)) (map (rewire ops a b) (graph_nodes g))
      = map_option (rewire ops a b) (find (\<lambda>n. s \<in> set (node_output n)) (graph_nodes g))"
    by (rule find_map_same) simp
  then show ?thesis
    using Some by (simp add: get_node_by_output_def get_nodes_def replace_all_inputs_rewire)
qed

lemma current_rewire:
  "node_input (current (replace_all_inputs g ops a b) m)
     = (case find (\<lambda>n. node_name n = node_name m) (graph_nodes g) of
          Some n \<Rightarrow> node_input (rewire ops a b n)
        | None \<Rightarrow> node_input m)"
proof -
  have "find (\<lambda>n. node_name n = node_name m) (map (rewire ops a b) (graph_nodes g))
      = map_option (rewire ops a b) (find (\<lambda>n. node_name n = node_name m) (graph_nodes g))"
    by (rule find_map_same) simp
  then show ?thesis
    by (simp add: current_def replace_all_inputs_rewire split: option.splits)
qed

lemma current_rewire_absent:
  assumes "a \<notin> set (node_input (current g m))"
  shows "node_input (current (replace_all_inputs g ops a b) m) = node_input (current g m)"
proof (cases "find (\<lambda>n. node_name n = node_name m) (graph_nodes g)")
  case None
  then show ?thesis by (simp add: current_rewire) (simp add: current_def)
next
  case (Some n)
  then have "current g m = n" by (simp add: current_def)
  with assms have "node_input (rewire ops a b n) = node_input n"
    by (simp add: rewire_input_absent)
  with Some \<open>current g m = n\<close> show ?thesis by (simp add: current_rewire)
qed

lemma nodes_of_type_rewire:
  "nodes_of_type ty (map (map_option (rewire ops a b)) xs)
     = (case nodes_of_type ty xs of Inl e \<Rightarrow> Inl e | Inr ns \<Rightarrow> Inr (map (rewire ops a b) ns))"
  by (induction ty xs rule: nodes_of_type.induct)
     (auto simp: bind_err_def split: sum.splits)

lemma loop_var_of_merge_rewire:
  assumes "a \<notin> set (node_input (current g m))"
  shows "loop_var_of_merge context (replace_all_inputs g ops a b) m = loop_var_of_merge context g m"
proof -
  let ?g' = "replace_all_inputs g ops a b"
  have "node_inputs ?g' (current ?g' m)
      = map (map_option (rewire ops a b)) (node_inputs g (current g m))"
    unfolding node_inputs_def
    by (simp add: current_rewire_absent [OF assms] get_node_by_output_rewire)
  then have n: "nodes_of_type ''Enter'' (node_inputs ?g' (current ?g' m))
      = (case nodes_of_type ''Enter'' (node_inputs g (current g m)) of
           Inl e \<Rightarrow> Inl e | Inr ns \<Rightarrow> Inr (map (rewire ops a b) ns))"
    by (simp add: nodes_of_type_rewire)
  show ?thesis
    unfolding loop_var_of_merge_def n
    by (cases "nodes_of_type ''Enter'' (node_inputs g (current g m))")
       (auto simp: bind_err_def py_index_def)
qed

lemma od_get_values: "od_get d k = Inr v \<Longrightarrow> v \<in> set (od_values d)"
  by (auto simp: od_get_def od_values_def split: option.splits dest: map_of_SomeD
      intro: image_eqI [where x = "(k, v)"])

lemma loop_var_of_merge_values:
  "loop_var_of_merge context g m = Inr v \<Longrightarrow>
   v \<in> set (od_values (all_variables (loop_properties context)))"
  unfolding loop_var_of_merge_def bind_err_eq_Inr by (blast dest: od_get_values)

text \<open>
  The state of the rewiring after the merge nodes \<open>ms\<close> with their variables \<open>vs\<close>:
  position by position, a non-switch node reads the variable's body-entry tensor where it
  read the merge node's output, and what it read elsewhere.
\<close>

definition merge_out :: "'a node \<Rightarrow> string option" where
  "merge_out m = Some (node_output m ! 0)"

definition body_entry :: "loop_variable \<Rightarrow> string option" where
  "body_entry v = tvi_id (switch_true_identity_output v)"

definition rewired :: "'a graph \<Rightarrow> 'a graph \<Rightarrow> 'a node list \<Rightarrow> loop_variable list \<Rightarrow> bool" where
  "rewired g g2 ms vs =
     (length (graph_nodes g2) = length (graph_nodes g) \<and>
      (\<forall>p<length (graph_nodes g).
          node_type (graph_nodes g2 ! p) = node_type (graph_nodes g ! p) \<and>
          node_name (graph_nodes g2 ! p) = node_name (graph_nodes g ! p) \<and>
          length (node_input (graph_nodes g2 ! p)) = length (node_input (graph_nodes g ! p))) \<and>
      (\<forall>k<length ms. \<forall>p<length (graph_nodes g).
          node_type (graph_nodes g ! p) \<noteq> ''Switch'' \<longrightarrow>
          (\<forall>i<length (node_input (graph_nodes g ! p)).
              node_input (graph_nodes g ! p) ! i = merge_out (ms ! k) \<longrightarrow>
              node_input (graph_nodes g2 ! p) ! i = body_entry (vs ! k))) \<and>
      (\<forall>p<length (graph_nodes g). \<forall>i<length (node_input (graph_nodes g ! p)).
          node_type (graph_nodes g ! p) \<noteq> ''Switch'' \<longrightarrow>
          node_input (graph_nodes g ! p) ! i \<notin> merge_out ` set ms \<longrightarrow>
          node_input (graph_nodes g2 ! p) ! i = node_input (graph_nodes g ! p) ! i))"

lemma rewired_refl: "rewired g g [] []"
  by (simp add: rewired_def)

lemma rewired_step:
  assumes g': "graph_nodes g' = map (rewire S (merge_out m) (body_entry v)) (graph_nodes g)"
    and S: "\<And>n. n \<in> set (graph_nodes g) \<Longrightarrow> node_type n \<noteq> ''Switch'' \<Longrightarrow>
               merge_out m \<in> set (node_input n) \<Longrightarrow> node_name n \<in> set S"
    and rest: "rewired g' g2 rest vs"
    and dist: "merge_out m \<notin> merge_out ` set rest"
    and fresh: "body_entry v \<notin> merge_out ` set rest"
    and len: "length vs = length rest"
  shows "rewired g g2 (m # rest) (v # vs)"
proof -
  let ?F = "rewire S (merge_out m) (body_entry v)"
  have n': "\<And>p. p < length (graph_nodes g) \<Longrightarrow> graph_nodes g' ! p = ?F (graph_nodes g ! p)"
    by (simp add: g')
  have l': "length (graph_nodes g') = length (graph_nodes g)" by (simp add: g')
  from rest have r1: "length (graph_nodes g2) = length (graph_nodes g')"
    and r2: "\<And>p. p < length (graph_nodes g') \<Longrightarrow>
          node_type (graph_nodes g2 ! p) = node_type (graph_nodes g' ! p) \<and>
          node_name (graph_nodes g2 ! p) = node_name (graph_nodes g' ! p) \<and>
          length (node_input (graph_nodes g2 ! p)) = length (node_input (graph_nodes g' ! p))"
    and r3: "\<And>k p i. k < length rest \<Longrightarrow> p < length (graph_nodes g') \<Longrightarrow>
          node_type (graph_nodes g' ! p) \<noteq> ''Switch'' \<Longrightarrow>
          i < length (node_input (graph_nodes g' ! p)) \<Longrightarrow>
          node_input (graph_nodes g' ! p) ! i = merge_out (rest ! k) \<Longrightarrow>
          node_input (graph_nodes g2 ! p) ! i = body_entry (vs ! k)"
    and r4: "\<And>p i. p < length (graph_nodes g') \<Longrightarrow> i < length (node_input (graph_nodes g' ! p)) \<Longrightarrow>
          node_type (graph_nodes g' ! p) \<noteq> ''Switch'' \<Longrightarrow>
          node_input (graph_nodes g' ! p) ! i \<notin> merge_out ` set rest \<Longrightarrow>
          node_input (graph_nodes g2 ! p) ! i = node_input (graph_nodes g' ! p) ! i"
    unfolding rewired_def by blast+
  have a1: "length (graph_nodes g2) = length (graph_nodes g)" using r1 l' by simp
  have a2: "node_type (graph_nodes g2 ! p) = node_type (graph_nodes g ! p) \<and>
          node_name (graph_nodes g2 ! p) = node_name (graph_nodes g ! p) \<and>
          length (node_input (graph_nodes g2 ! p)) = length (node_input (graph_nodes g ! p))"
    if "p < length (graph_nodes g)" for p
    using r2 [of p] that l' n' [OF that] by simp
  have step: "node_input (graph_nodes g' ! p) ! i =
        (if node_name (graph_nodes g ! p) \<in> set S \<and> node_input (graph_nodes g ! p) ! i = merge_out m
         then body_entry v else node_input (graph_nodes g ! p) ! i)"
    if "p < length (graph_nodes g)" "i < length (node_input (graph_nodes g ! p))" for p i
    using that by (simp add: n' rewire_input_nth)
  have a3: "node_input (graph_nodes g2 ! p) ! i = body_entry ((v # vs) ! k)"
    if k: "k < length (m # rest)" and p: "p < length (graph_nodes g)"
      and ty: "node_type (graph_nodes g ! p) \<noteq> ''Switch''"
      and i: "i < length (node_input (graph_nodes g ! p))"
      and eq: "node_input (graph_nodes g ! p) ! i = merge_out ((m # rest) ! k)" for k p i
  proof (cases k)
    case 0
    with eq have e: "node_input (graph_nodes g ! p) ! i = merge_out m" by simp
    have "graph_nodes g ! p \<in> set (graph_nodes g)" using p by simp
    moreover have "merge_out m \<in> set (node_input (graph_nodes g ! p))"
      using e i by (metis nth_mem)
    ultimately have "node_name (graph_nodes g ! p) \<in> set S" using ty by (intro S)
    with e step [OF p i] have s: "node_input (graph_nodes g' ! p) ! i = body_entry v" by simp
    have "node_input (graph_nodes g2 ! p) ! i = node_input (graph_nodes g' ! p) ! i"
      using p i ty fresh s l' n' [OF p] by (intro r4) simp_all
    with s 0 show ?thesis by simp
  next
    case (Suc j)
    with eq have e: "node_input (graph_nodes g ! p) ! i = merge_out (rest ! j)" by simp
    from Suc k have j: "j < length rest" by simp
    then have "merge_out (rest ! j) \<in> merge_out ` set rest" by simp
    with dist e have "node_input (graph_nodes g ! p) ! i \<noteq> merge_out m" by metis
    with step [OF p i] e have "node_input (graph_nodes g' ! p) ! i = merge_out (rest ! j)" by simp
    then have "node_input (graph_nodes g2 ! p) ! i = body_entry (vs ! j)"
      using j p i ty l' n' [OF p] by (intro r3) simp_all
    with Suc show ?thesis by simp
  qed
  have a4: "node_input (graph_nodes g2 ! p) ! i = node_input (graph_nodes g ! p) ! i"
    if p: "p < length (graph_nodes g)" and i: "i < length (node_input (graph_nodes g ! p))"
      and ty: "node_type (graph_nodes g ! p) \<noteq> ''Switch''"
      and un: "node_input (graph_nodes g ! p) ! i \<notin> merge_out ` set (m # rest)" for p i
  proof -
    from un have "node_input (graph_nodes g ! p) ! i \<noteq> merge_out m" by auto
    with step [OF p i] have s: "node_input (graph_nodes g' ! p) ! i = node_input (graph_nodes g ! p) ! i"
      by simp
    with un have "node_input (graph_nodes g' ! p) ! i \<notin> merge_out ` set rest" by auto
    then have "node_input (graph_nodes g2 ! p) ! i = node_input (graph_nodes g' ! p) ! i"
      using p i ty l' n' [OF p] by (intro r4) simp_all
    with s show ?thesis by simp
  qed
  show ?thesis unfolding rewired_def using a1 a2 a3 a4 by blast
qed

lemma py_index_0_merge_out: "py_index (node_output m) 0 = Inr x \<Longrightarrow> merge_out m = Some x"
  by (auto simp: py_index_def merge_out_def split: if_splits)

lemma for_each_merge_rewired:
  "for_each_merge ms ctx g acc = Inr (g2, vars) \<Longrightarrow>
   distinct (map merge_out ms) \<Longrightarrow>
   (\<forall>m\<in>set ms. \<forall>m'\<in>set ms. merge_out m' \<notin> set (node_input (current g m))) \<Longrightarrow>
   (\<forall>v\<in>set (od_values (all_variables (loop_properties ctx))). \<forall>m\<in>set ms.
       body_entry v \<noteq> merge_out m) \<Longrightarrow>
   \<exists>vs. vars = acc @ vs \<and> list_all2 (\<lambda>m v. loop_var_of_merge ctx g m = Inr v) ms vs \<and>
        rewired g g2 ms vs"
proof (induction ms arbitrary: g acc)
  case Nil
  then show ?case by (simp add: rewired_refl)
next
  case (Cons m rest)
  let ?S = "\<lambda>x. map node_name (filter (\<lambda>n. node_type n \<noteq> ''Switch'')
                                  (find_output_consumers g (Some x)))"
  from Cons.prems(1) obtain v x where lk: "loop_var_of_merge ctx g m = Inr v"
    and px: "py_index (node_output m) 0 = Inr x"
    and rec: "for_each_merge rest ctx
                (replace_all_inputs g (?S x) (Some x) (tvi_id (switch_true_identity_output v)))
                (acc @ [v]) = Inr (g2, vars)"
    unfolding for_each_merge.simps bind_err_eq_Inr Let_def by blast
  have mo: "merge_out m = Some x" using px by (rule py_index_0_merge_out)
  define g' where "g' = replace_all_inputs g (?S x) (merge_out m) (body_entry v)"
  have rec': "for_each_merge rest ctx g' (acc @ [v]) = Inr (g2, vars)"
    using rec by (simp add: g'_def mo body_entry_def)
  have vin: "v \<in> set (od_values (all_variables (loop_properties ctx)))"
    using lk by (rule loop_var_of_merge_values)
  have absent: "merge_out m \<notin> set (node_input (current g m2))" if "m2 \<in> set (m # rest)" for m2
    using Cons.prems(3) that by auto
  have cur: "node_input (current g' m2) = node_input (current g m2)" if "m2 \<in> set rest" for m2
    unfolding g'_def using absent [of m2] that by (simp add: current_rewire_absent)
  have p2: "distinct (map merge_out rest)" using Cons.prems(2) by simp
  have p3: "\<forall>m2\<in>set rest. \<forall>m'\<in>set rest. merge_out m' \<notin> set (node_input (current g' m2))"
    using Cons.prems(3) cur by simp
  have p4: "\<forall>v\<in>set (od_values (all_variables (loop_properties ctx))). \<forall>m\<in>set rest.
       body_entry v \<noteq> merge_out m"
    using Cons.prems(4) by simp
  from Cons.IH [OF rec' p2 p3 p4] obtain vs where
    vars: "vars = (acc @ [v]) @ vs"
    and la: "list_all2 (\<lambda>m v. loop_var_of_merge ctx g' m = Inr v) rest vs"
    and rw: "rewired g' g2 rest vs"
    by blast
  have same: "loop_var_of_merge ctx g' m2 = loop_var_of_merge ctx g m2" if "m2 \<in> set rest" for m2
    unfolding g'_def using absent [of m2] that by (simp add: loop_var_of_merge_rewire)
  have la': "list_all2 (\<lambda>m v. loop_var_of_merge ctx g m = Inr v) rest vs"
    using la same by (auto simp: list_all2_conv_all_nth)
  have "rewired g g2 (m # rest) (v # vs)"
  proof (rule rewired_step [where g' = g' and S = "?S x"])
    show "graph_nodes g' = map (rewire (?S x) (merge_out m) (body_entry v)) (graph_nodes g)"
      by (simp add: g'_def replace_all_inputs_rewire)
    show "node_name n \<in> set (?S x)"
      if "n \<in> set (graph_nodes g)" "node_type n \<noteq> ''Switch''"
        "merge_out m \<in> set (node_input n)" for n
      using that mo by (auto simp: find_output_consumers_def get_nodes_def)
    show "rewired g' g2 rest vs" by fact
    show "merge_out m \<notin> merge_out ` set rest" using Cons.prems(2) by simp
    show "body_entry v \<notin> merge_out ` set rest" using Cons.prems(4) vin by auto
    show "length vs = length rest" using la by (simp add: list_all2_lengthD)
  qed
  with vars lk la' show ?case by auto
qed

lemma bind_err_Inr [simp]: "bind_err (Inr x) f = f x"
  by (simp add: bind_err_def)

lemma bind_err_Inl [simp]: "bind_err (Inl e) f = Inl e"
  by (simp add: bind_err_def)

text \<open>
  The variable of a merge node is the one registered under the name of the first \<open>Enter\<close>
  node among the producers of the merge node's inputs.
\<close>

lemma nodes_of_type_first:
  "nodes_of_type ty xs = Inr (e # es) \<Longrightarrow>
   find (\<lambda>y. case y of None \<Rightarrow> False | Some n \<Rightarrow> node_type n = ty) xs = Some (Some e)"
proof (induction ty xs arbitrary: e es rule: nodes_of_type.induct)
  case (1 ty)
  then show ?case by simp
next
  case (2 ty rest)
  then show ?case by simp
next
  case (3 ty n rest)
  show ?case
  proof (cases "node_type n = ty")
    case True
    with "3.prems" have "e = n" by (auto simp: bind_err_eq_Inr)
    with True show ?thesis by simp
  next
    case False
    with "3.prems" have "nodes_of_type ty rest = Inr (e # es)" by simp
    with "3.IH"(2) [OF False] False show ?thesis by simp
  qed
qed

lemma find_holds: "find P xs = Some x \<Longrightarrow> x \<in> set xs \<and> P x"
  by (induction xs) (auto split: if_splits)

lemma loop_var_of_merge_enter:
  assumes "loop_var_of_merge context g m = Inr v"
  shows "\<exists>e. find (\<lambda>y. case y of None \<Rightarrow> False | Some n \<Rightarrow> node_type n = ''Enter'')
               (node_inputs g (current g m)) = Some (Some e)
           \<and> (\<exists>x\<in>set (node_input (current g m)). get_node_by_output g x = Some e)
           \<and> node_type e = ''Enter''
           \<and> map_of (all_variables (loop_properties context)) (node_name e) = Some v"
proof -
  from assms obtain enters e where
    n: "nodes_of_type ''Enter'' (node_inputs g (current g m)) = Inr enters"
    and p: "py_index enters 0 = Inr e"
    and d: "od_get (all_variables (loop_properties context)) (node_name e) = Inr v"
    unfolding loop_var_of_merge_def bind_err_eq_Inr by blast
  from p obtain es where "enters = e # es"
    by (cases enters) (auto simp: py_index_def)
  with n have f: "find (\<lambda>y. case y of None \<Rightarrow> False | Some n \<Rightarrow> node_type n = ''Enter'')
               (node_inputs g (current g m)) = Some (Some e)"
    by (simp add: nodes_of_type_first)
  from find_holds [OF f] have "Some e \<in> set (node_inputs g (current g m))"
    and ty: "node_type e = ''Enter''"
    by simp_all
  then have "\<exists>x\<in>set (node_input (current g m)). get_node_by_output g x = Some e"
    by (auto simp: node_inputs_def)
  moreover from d have "map_of (all_variables (loop_properties context)) (node_name e) = Some v"
    by (simp add: od_get_def split: option.splits)
  ultimately show ?thesis using f ty by blast
qed

lemma od_set_subset: "set (od_set k v d) \<subseteq> insert (k, v) (set d)"
  by (induction d) (auto split: if_splits)

lemma od_update_subset: "set (od_update d other) \<subseteq> set d \<union> set other"
proof -
  have "set (fold (\<lambda>(k, v) acc. od_set k v acc) other d) \<subseteq> set d \<union> set other" for d
  proof (induction other arbitrary: d)
    case Nil
    then show ?case by simp
  next
    case (Cons kv other)
    obtain k v where kv: "kv = (k, v)" by (cases kv)
    have "set (fold (\<lambda>(k, v) acc. od_set k v acc) other (od_set k v d))
        \<subseteq> set (od_set k v d) \<union> set other"
      by (rule Cons.IH)
    with od_set_subset [of k v d] show ?case unfolding kv by auto
  qed
  then show ?thesis by (simp add: od_update_def)
qed

lemma all_variables_keyed:
  assumes "\<forall>kv\<in>set (state_variables props) \<union> set (scan_variables props). enter_name (snd kv) = fst kv"
    and "map_of (all_variables props) k = Some v"
  shows "enter_name v = k"
proof -
  from assms(2) have "(k, v) \<in> set (all_variables props)" by (rule map_of_SomeD)
  then have "(k, v) \<in> set (state_variables props) \<union> set (scan_variables props)"
    using od_update_subset [of "state_variables props" "scan_variables props"]
    by (auto simp: all_variables_def)
  from bspec [OF assms(1) this] show ?thesis by simp
qed

text \<open>
  C6. Let the cropping of the condition subgraph return, with \<open>merges\<close> the merge nodes its
  search stopped at and \<open>g1\<close> the graph after the enter nodes were bridged. In a graph
  where the first outputs of those merge nodes differ from one another, are read by none
  of those merge nodes, and are no variable's body-entry tensor: the recorded dependency
  list has one entry per excluded merge node, in order; the entry of a merge node is the
  loop variable registered under the name of the first \<open>Enter\<close> node among the producers
  of the merge node's inputs (and has that name as entry name, when variables are
  registered under their entry names); and in the graph the merge loop leaves, every
  input position of a non-switch node that read such a merge node's output reads that
  variable's body-entry tensor, so that no non-switch node reads any of those outputs.
\<close>

theorem condition_dependencies:
  assumes crop: "crop_loop_condition_sub_graph g context = Inr (g', info)"
    and lc: "loop_cond context = Some lc"
    and i0: "py_index (node_input (current g lc)) 0 = Inr i0"
    and sub: "find_subgraph [] [i0] g True = (ops, ens, merges)"
    and g1: "rewire_enter_nodes ens (map node_name ops) g = Inr g1"
    and outs: "distinct (map (\<lambda>m. node_output m ! 0) merges)"
    and nomerge: "\<forall>m\<in>set merges. \<forall>m'\<in>set merges.
                    Some (node_output m' ! 0) \<notin> set (node_input (current g1 m))"
    and body: "\<forall>v\<in>set (od_values (all_variables (loop_properties context))). \<forall>m\<in>set merges.
                 tvi_id (switch_true_identity_output v) \<noteq> Some (node_output m ! 0)"
  shows "\<exists>vars g2 o0.
       dependent_vars info = Some vars
     \<and> list_all2 (\<lambda>m v. loop_var_of_merge context g1 m = Inr v) merges vars
     \<and> list_all2 (\<lambda>m v. \<exists>e.
            find (\<lambda>y. case y of None \<Rightarrow> False | Some n \<Rightarrow> node_type n = ''Enter'')
              (node_inputs g1 (current g1 m)) = Some (Some e)
          \<and> (\<exists>x\<in>set (node_input (current g1 m)). get_node_by_output g1 x = Some e)
          \<and> node_type e = ''Enter''
          \<and> map_of (all_variables (loop_properties context)) (node_name e) = Some v
          \<and> ((\<forall>kv\<in>set (state_variables (loop_properties context))
                       \<union> set (scan_variables (loop_properties context)).
                  enter_name (snd kv) = fst kv) \<longrightarrow> enter_name v = node_name e))
         merges vars
     \<and> for_each_merge merges context g1 [] = Inr (g2, vars)
     \<and> g' = replace_all_inputs g2 [node_name lc] (Some o0) (Some INVALID_INPUT_ID)
     \<and> length (graph_nodes g2) = length (graph_nodes g1)
     \<and> (\<forall>k<length merges. \<forall>p<length (graph_nodes g1).
          node_type (graph_nodes g1 ! p) \<noteq> ''Switch'' \<longrightarrow>
          (\<forall>i<length (node_input (graph_nodes g1 ! p)).
             node_input (graph_nodes g1 ! p) ! i = Some (node_output (merges ! k) ! 0) \<longrightarrow>
             node_input (graph_nodes g2 ! p) ! i
               = tvi_id (switch_true_identity_output (vars ! k))))
     \<and> (\<forall>n\<in>set (graph_nodes g2). node_type n \<noteq> ''Switch'' \<longrightarrow>
          (\<forall>m\<in>set merges. Some (node_output m ! 0) \<notin> set (node_input n)))"
proof -
  from crop lc i0 sub g1 have
    "bind_err (for_each_merge merges context g1 []) (\<lambda>(g2, dependent_vars').
       bind_err (py_index (node_output lc) 0) (\<lambda>o0.
         Inr (replace_all_inputs g2 [node_name lc] (Some o0) (Some INVALID_INPUT_ID),
              (GraphInfo (map node_name ops) [] (map TensorValueInfo [i0]))
                \<lparr>dependent_vars := Some dependent_vars'\<rparr>))) = Inr (g', info)"
    by (simp add: crop_loop_condition_sub_graph_def attr_of_def Let_def)
  then obtain pr where fm: "for_each_merge merges context g1 [] = Inr pr"
    and r: "(case pr of (g2, dependent_vars') \<Rightarrow>
       bind_err (py_index (node_output lc) 0) (\<lambda>o0.
         Inr (replace_all_inputs g2 [node_name lc] (Some o0) (Some INVALID_INPUT_ID),
              (GraphInfo (map node_name ops) [] (map TensorValueInfo [i0]))
                \<lparr>dependent_vars := Some dependent_vars'\<rparr>))) = Inr (g', info)"
    unfolding bind_err_eq_Inr by blast
  obtain g2 vars where pr: "pr = (g2, vars)" by (cases pr)
  from r pr obtain o0 where
    g': "g' = replace_all_inputs g2 [node_name lc] (Some o0) (Some INVALID_INPUT_ID)"
    and info: "info = (GraphInfo (map node_name ops) [] (map TensorValueInfo [i0]))
                \<lparr>dependent_vars := Some vars\<rparr>"
    by (auto simp: bind_err_eq_Inr)
  have dv: "dependent_vars info = Some vars" using info by simp
  have d: "distinct (map merge_out merges)"
  proof -
    have "map merge_out merges = map Some (map (\<lambda>m. node_output m ! 0) merges)"
      by (simp add: merge_out_def)
    then show ?thesis using outs by (simp only: distinct_map) simp
  qed
  have nm: "\<forall>m\<in>set merges. \<forall>m'\<in>set merges. merge_out m' \<notin> set (node_input (current g1 m))"
    using nomerge by (simp add: merge_out_def)
  have bd: "\<forall>v\<in>set (od_values (all_variables (loop_properties context))). \<forall>m\<in>set merges.
       body_entry v \<noteq> merge_out m"
    using body by (simp add: merge_out_def body_entry_def)
  from for_each_merge_rewired [OF fm [unfolded pr] d nm bd]
  have la: "list_all2 (\<lambda>m v. loop_var_of_merge context g1 m = Inr v) merges vars"
    and rw: "rewired g1 g2 merges vars"
    by auto
  from rw have len: "length (graph_nodes g2) = length (graph_nodes g1)"
    and ty: "\<And>p. p < length (graph_nodes g1) \<Longrightarrow>
          node_type (graph_nodes g2 ! p) = node_type (graph_nodes g1 ! p) \<and>
          length (node_input (graph_nodes g2 ! p)) = length (node_input (graph_nodes g1 ! p))"
    and pos: "\<And>k p i. k < length merges \<Longrightarrow> p < length (graph_nodes g1) \<Longrightarrow>
          node_type (graph_nodes g1 ! p) \<noteq> ''Switch'' \<Longrightarrow>
          i < length (node_input (graph_nodes g1 ! p)) \<Longrightarrow>
          node_input (graph_nodes g1 ! p) ! i = merge_out (merges ! k) \<Longrightarrow>
          node_input (graph_nodes g2 ! p) ! i = body_entry (vars ! k)"
    and unt: "\<And>p i. p < length (graph_nodes g1) \<Longrightarrow> i < length (node_input (graph_nodes g1 ! p)) \<Longrightarrow>
          node_type (graph_nodes g1 ! p) \<noteq> ''Switch'' \<Longrightarrow>
          node_input (graph_nodes g1 ! p) ! i \<notin> merge_out ` set merges \<Longrightarrow>
          node_input (graph_nodes g2 ! p) ! i = node_input (graph_nodes g1 ! p) ! i"
    unfolding rewired_def by blast+
  have lv: "length vars = length merges" using la by (simp add: list_all2_lengthD)
  have vals: "vars ! k \<in> set (od_values (all_variables (loop_properties context)))"
    if "k < length merges" for k
    using la that by (auto simp: list_all2_conv_all_nth dest: loop_var_of_merge_values)
  have gone: "merge_out m \<notin> set (node_input n)"
    if n: "n \<in> set (graph_nodes g2)" and nt: "node_type n \<noteq> ''Switch''" and m: "m \<in> set merges"
    for n m
  proof
    assume "merge_out m \<in> set (node_input n)"
    then obtain i where i: "i < length (node_input n)" and e: "node_input n ! i = merge_out m"
      by (auto simp: in_set_conv_nth)
    from n obtain p where p: "p < length (graph_nodes g2)" and np: "n = graph_nodes g2 ! p"
      by (auto simp: in_set_conv_nth)
    have p1: "p < length (graph_nodes g1)" using p len by simp
    have t1: "node_type (graph_nodes g1 ! p) \<noteq> ''Switch''" using ty [OF p1] nt np by simp
    have i1: "i < length (node_input (graph_nodes g1 ! p))" using ty [OF p1] i np by simp
    show False
    proof (cases "node_input (graph_nodes g1 ! p) ! i \<in> merge_out ` set merges")
      case True
      then obtain k where k: "k < length merges"
        and ek: "node_input (graph_nodes g1 ! p) ! i = merge_out (merges ! k)"
        by (auto simp: in_set_conv_nth)
      from pos [OF k p1 t1 i1 ek] e np have "body_entry (vars ! k) = merge_out m" by simp
      with bd vals [OF k] m show False by blast
    next
      case False
      from unt [OF p1 i1 t1 False] e np
      have "node_input (graph_nodes g1 ! p) ! i = merge_out m" by simp
      with False m show False by simp
    qed
  qed
  have c6: "\<forall>k<length merges. \<forall>p<length (graph_nodes g1).
          node_type (graph_nodes g1 ! p) \<noteq> ''Switch'' \<longrightarrow>
          (\<forall>i<length (node_input (graph_nodes g1 ! p)).
             node_input (graph_nodes g1 ! p) ! i = Some (node_output (merges ! k) ! 0) \<longrightarrow>
             node_input (graph_nodes g2 ! p) ! i
               = tvi_id (switch_true_identity_output (vars ! k)))"
    using pos by (simp add: merge_out_def body_entry_def)
  have c7: "\<forall>n\<in>set (graph_nodes g2). node_type n \<noteq> ''Switch'' \<longrightarrow>
          (\<forall>m\<in>set merges. Some (node_output m ! 0) \<notin> set (node_input n))"
    using gone by (simp add: merge_out_def)
  have la2: "list_all2 (\<lambda>m v. \<exists>e.
            find (\<lambda>y. case y of None \<Rightarrow> False | Some n \<Rightarrow> node_type n = ''Enter'')
              (node_inputs g1 (current g1 m)) = Some (Some e)
          \<and> (\<exists>x\<in>set (node_input (current g1 m)). get_node_by_output g1 x = Some e)
          \<and> node_type e = ''Enter''
          \<and> map_of (all_variables (loop_properties context)) (node_name e) = Some v
          \<and> ((\<forall>kv\<in>set (state_variables (loop_properties context))
                       \<union> set (scan_variables (loop_properties context)).
                  enter_name (snd kv) = fst kv) \<longrightarrow> enter_name v = node_name e))
         merges vars"
  proof (rule list_all2_mono [OF la])
    fix m v
    assume "loop_var_of_merge context g1 m = Inr v"
    from loop_var_of_merge_enter [OF this] obtain e where
      e: "find (\<lambda>y. case y of None \<Rightarrow> False | Some n \<Rightarrow> node_type n = ''Enter'')
              (node_inputs g1 (current g1 m)) = Some (Some e)"
        "\<exists>x\<in>set (node_input (current g1 m)). get_node_by_output g1 x = Some e"
        "node_type e = ''Enter''"
        "map_of (all_variables (loop_properties context)) (node_name e) = Some v"
      by blast
    have "(\<forall>kv\<in>set (state_variables (loop_properties context))
                       \<union> set (scan_variables (loop_properties context)).
                  enter_name (snd kv) = fst kv) \<longrightarrow> enter_name v = node_name e"
      using all_variables_keyed [OF _ e(4)] by blast
    with e show "\<exists>e.
            find (\<lambda>y. case y of None \<Rightarrow> False | Some n \<Rightarrow> node_type n = ''Enter'')
              (node_inputs g1 (current g1 m)) = Some (Some e)
          \<and> (\<exists>x\<in>set (node_input (current g1 m)). get_node_by_output g1 x = Some e)
          \<and> node_type e = ''Enter''
          \<and> map_of (all_variables (loop_properties context)) (node_name e) = Some v
          \<and> ((\<forall>kv\<in>set (state_variables (loop_properties context))
                       \<union> set (scan_variables (loop_properties context)).
                  enter_name (snd kv) = fst kv) \<longrightarrow> enter_name v = node_name e)"
      by blast
  qed
  from dv la la2 fm pr g' len c6 c7 show ?thesis by blast
qed

text \<open>
  A while loop over two variables whose condition reads both: classified, isolated, and its
  condition subgraph cropped. The search meets \<open>while/Merge_1\<close> before \<open>while/Merge\<close>,
  the variables were registered in the other order.
\<close>

definition while2_graph :: "unit graph" where
  "while2_graph =
     \<lparr>graph_nodes =
        [mk_node ''init'' ''Const'' [] [''init:0''],
         mk_node ''init2'' ''Const'' [] [''init2:0''],
         mk_node ''while/Enter'' ''Enter'' [Some ''init:0''] [''while/Enter:0''],
         mk_node ''while/Enter_1'' ''Enter'' [Some ''init2:0''] [''while/Enter_1:0''],
         mk_node ''while/Merge'' ''Merge'' [Some ''while/Enter:0'', Some ''while/NextIteration:0'']
           [''while/Merge:0'', ''while/Merge:1''],
         mk_node ''while/Merge_1'' ''Merge''
           [Some ''while/Enter_1:0'', Some ''while/NextIteration_1:0'']
           [''while/Merge_1:0'', ''while/Merge_1:1''],
         mk_node ''while/Less'' ''Less'' [Some ''while/Merge_1:0'', Some ''while/Merge:0'']
           [''while/Less:0''],
         mk_node ''while/LoopCond'' ''LoopCond'' [Some ''while/Less:0''] [''while/LoopCond:0''],
         mk_node ''while/Switch'' ''Switch'' [Some ''while/Merge:0'', Some ''while/LoopCond:0'']
           [''while/Switch:0'', ''while/Switch:1''],
         mk_node ''while/Switch_1'' ''Switch'' [Some ''while/Merge_1:0'', Some ''while/LoopCond:0'']
           [''while/Switch_1:0'', ''while/Switch_1:1''],
         mk_node ''while/Identity'' ''Identity'' [Some ''while/Switch:1''] [''while/Identity:0''],
         mk_node ''while/Identity_1'' ''Identity'' [Some ''while/Switch_1:1'']
           [''while/Identity_1:0''],
         mk_node ''while/add/y'' ''Const'' [] [''while/add/y:0''],
         mk_node ''while/add'' ''Add'' [Some ''while/Identity:0'', Some ''while/add/y:0'']
           [''while/add:0''],
         mk_node ''while/sub'' ''Sub'' [Some ''while/Identity_1:0'', Some ''while/add/y:0'']
           [''while/sub:0''],
         mk_node ''while/NextIteration'' ''NextIteration'' [Some ''while/add:0'']
           [''while/NextIteration:0''],
         mk_node ''while/NextIteration_1'' ''NextIteration'' [Some ''while/sub:0'']
           [''while/NextIteration_1:0''],
         mk_node ''while/Exit'' ''Exit'' [Some ''while/Switch:0''] [''while/Exit:0''],
         mk_node ''while/Exit_1'' ''Exit'' [Some ''while/Switch_1:0''] [''while/Exit_1:0'']],
      graph_outputs = [''while/Exit:0'', ''while/Exit_1:0'']\<rparr>"

definition var_n :: loop_variable where
  "var_n = \<lparr>enter_name = ''while/Enter_1'', enter_input_id = Some ''init2:0'',
            next_iteration_input = TensorValueInfo (Some ''while/sub:0''),
            switch_true_identity_output = TensorValueInfo (Some ''while/Identity_1:0''),
            exit_output = TensorValueInfo (Some ''while/Exit_1:0''),
            is_tensor_array = False, ta_index_id = None\<rparr>"

definition while2_context :: "unit loop_context" where
  "while2_context =
     \<lparr>while_context_scope = Some ''while/'',
      loop_properties =
        \<lparr>state_variables = [(''while/Enter'', var_i), (''while/Enter_1'', var_n)],
         scan_variables = [], tensor_array_inputs = []\<rparr>,
      loop_cond = Some while_loop_cond, cell_graph = None, cond_graph = None\<rparr>"

definition while2_less :: "unit node" where
  "while2_less = mk_node ''while/Less'' ''Less'' [Some ''while/Merge_1:0'', Some ''while/Merge:0'']
        [''while/Less:0'']"

definition while2_merge_1 :: "unit node" where
  "while2_merge_1 = mk_node ''while/Merge_1'' ''Merge''
        [Some ''while/Enter_1:0'', Some ''while/NextIteration_1:0'']
        [''while/Merge_1:0'', ''while/Merge_1:1'']"

definition while2_tail :: "unit node list" where
  "while2_tail =
     [while_loop_cond,
      while_switch,
      mk_node ''while/Switch_1'' ''Switch'' [Some ''while/Merge_1:0'', Some ''while/LoopCond:0'']
        [''while/Switch_1:0'', ''while/Switch_1:1''],
      mk_node ''while/add/y'' ''Const'' [] [''while/add/y:0''],
      mk_node ''while/add'' ''Add'' [Some ''while/Identity:0'', Some ''while/add/y:0'']
        [''while/add:0''],
      mk_node ''while/sub'' ''Sub'' [Some ''while/Identity_1:0'', Some ''while/add/y:0'']
        [''while/sub:0''],
      mk_node ''while/NextIteration'' ''NextIteration'' [Some INVALID_INPUT_ID]
        [''while/NextIteration:0''],
      mk_node ''while/NextIteration_1'' ''NextIteration'' [Some INVALID_INPUT_ID]
        [''while/NextIteration_1:0''],
      mk_node ''while/Exit'' ''Exit'' [Some ''while/Switch:0''] [''while/Exit:0''],
      mk_node ''while/Exit_1'' ''Exit'' [Some ''while/Switch_1:0''] [''while/Exit_1:0'']]"

definition while2_head :: "unit node list" where
  "while2_head =
     [mk_node ''init'' ''Const'' [] [''init:0''],
      mk_node ''init2'' ''Const'' [] [''init2:0''],
      mk_node ''while/Enter'' ''Enter'' [Some ''init:0''] [''while/Enter:0''],
      mk_node ''while/Enter_1'' ''Enter'' [Some ''init2:0''] [''while/Enter_1:0''],
      while_merge,
      while2_merge_1]"

definition while2_cut :: "unit graph" where
  "while2_cut =
     \<lparr>graph_nodes = while2_head @ [while2_less] @ while2_tail,
      graph_outputs = [''while/Exit:0'', ''while/Exit_1:0'']\<rparr>"

definition while2_cropped :: "unit graph" where
  "while2_cropped =
     \<lparr>graph_nodes = while2_head
        @ [mk_node ''while/Less'' ''Less'' [Some ''while/Identity_1:0'', Some ''while/Identity:0'']
             [''while/Less:0'']]
        @ while2_tail,
      graph_outputs = [''while/Exit:0'', ''while/Exit_1:0'']\<rparr>"

definition while2_cond_info :: graph_info where
  "while2_cond_info =
     \<lparr>gi_nodes = [''while/Less''], gi_inputs = [],
      gi_outputs = [TensorValueInfo (Some ''while/Less:0'')],
      dependent_vars = Some [var_n, var_i]\<rparr>"

lemma while2_pipeline:
  "check_in_read_only_mode (\<lambda>g. []) while2_graph (Context\<lparr>loop_cond := Some while_loop_cond\<rparr>)
     = Inr while2_context"
  "cut_off_connection_for_cell while2_graph while2_context = Inr while2_cut"
  by code_simp+

lemma while2_crop:
  "crop_loop_condition_sub_graph while2_cut while2_context = Inr (while2_cropped, while2_cond_info)"
  "loop_cond while2_context = Some while_loop_cond"
  "py_index (node_input (current while2_cut while_loop_cond)) 0 = Inr (Some ''while/Less:0'')"
  "find_subgraph [] [Some ''while/Less:0''] while2_cut True
     = ([while2_less], [], [while2_merge_1, while_merge])"
  "rewire_enter_nodes [] (map node_name [while2_less]) while2_cut = Inr while2_cut"
  "distinct (map (\<lambda>m. node_output m ! 0) [while2_merge_1, while_merge])"
  by code_simp+

lemma while2_wf:
  "\<forall>m\<in>set [while2_merge_1, while_merge]. \<forall>m'\<in>set [while2_merge_1, while_merge].
      Some (node_output m' ! 0) \<notin> set (node_input (current while2_cut m))"
  "\<forall>v\<in>set (od_values (all_variables (loop_properties while2_context))).
      \<forall>m\<in>set [while2_merge_1, while_merge].
        tvi_id (switch_true_identity_output v) \<noteq> Some (node_output m ! 0)"
  by code_simp+

lemma while2_lookup:
  "dependent_vars while2_cond_info = Some [var_n, var_i]"
  "od_values (all_variables (loop_properties while2_context)) = [var_i, var_n]"
  "find (\<lambda>y. case y of None \<Rightarrow> False | Some n \<Rightarrow> node_type n = ''Enter'')
     (node_inputs while2_cut (current while2_cut while2_merge_1))
     = Some (Some (mk_node ''while/Enter_1'' ''Enter'' [Some ''init2:0''] [''while/Enter_1:0'']))"
  "find (\<lambda>y. case y of None \<Rightarrow> False | Some n \<Rightarrow> node_type n = ''Enter'')
     (node_inputs while2_cut (current while2_cut while_merge))
     = Some (Some (mk_node ''while/Enter'' ''Enter'' [Some ''init:0''] [''while/Enter:0'']))"
  "enter_name var_n = ''while/Enter_1''"
  "enter_name var_i = ''while/Enter''"
  "for_each_merge [while2_merge_1, while_merge] while2_context while2_cut []
     = Inr (while2_cropped, [var_n, var_i])"
  "node_input (graph_nodes while2_cut ! 6) = [Some ''while/Merge_1:0'', Some ''while/Merge:0'']"
  "node_input (graph_nodes while2_cropped ! 6)
     = [tvi_id (switch_true_identity_output var_n), tvi_id (switch_true_identity_output var_i)]"
  by code_simp+

theorem condition_dependencies_witness:
  "check_in_read_only_mode (\<lambda>g. []) while2_graph (Context\<lparr>loop_cond := Some while_loop_cond\<rparr>)
     = Inr while2_context
   \<and> cut_off_connection_for_cell while2_graph while2_context = Inr while2_cut
   \<and> crop_loop_condition_sub_graph while2_cut while2_context = Inr (while2_cropped, while2_cond_info)
   \<and> loop_cond while2_context = Some while_loop_cond
   \<and> py_index (node_input (current while2_cut while_loop_cond)) 0 = Inr (Some ''while/Less:0'')
   \<and> find_subgraph [] [Some ''while/Less:0''] while2_cut True
       = ([while2_less], [], [while2_merge_1, while_merge])
   \<and> rewire_enter_nodes [] (map node_name [while2_less]) while2_cut = Inr while2_cut
   \<and> distinct (map (\<lambda>m. node_output m ! 0) [while2_merge_1, while_merge])
   \<and> od_values (all_variables (loop_properties while2_context)) = [var_i, var_n]
   \<and> dependent_vars while2_cond_info = Some [var_n, var_i]
   \<and> find (\<lambda>y. case y of None \<Rightarrow> False | Some n \<Rightarrow> node_type n = ''Enter'')
        (node_inputs while2_cut (current while2_cut while2_merge_1))
       = Some (Some (mk_node ''while/Enter_1'' ''Enter'' [Some ''init2:0''] [''while/Enter_1:0'']))
   \<and> enter_name var_n = ''while/Enter_1''
   \<and> find (\<lambda>y. case y of None \<Rightarrow> False | Some n \<Rightarrow> node_type n = ''Enter'')
        (node_inputs while2_cut (current while2_cut while_merge))
       = Some (Some (mk_node ''while/Enter'' ''Enter'' [Some ''init:0''] [''while/Enter:0'']))
   \<and> enter_name var_i = ''while/Enter''
   \<and> for_each_merge [while2_merge_1, while_merge] while2_context while2_cut []
       = Inr (while2_cropped, [var_n, var_i])
   \<and> node_input (graph_nodes while2_cut ! 6) = [Some ''while/Merge_1:0'', Some ''while/Merge:0'']
   \<and> node_input (graph_nodes while2_cropped ! 6)
       = [tvi_id (switch_true_identity_output var_n), tvi_id (switch_true_identity_output var_i)]"
proof -
  note inst = condition_dependencies [OF while2_crop while2_wf]
  show ?thesis
    using inst while2_pipeline while2_crop while2_lookup by blast
qed

end
